theory Spec2Isabelle
  imports Main
begin

section \<open>Thrown values and completions\<close>

text \<open>
  The library is TypeScript (\<^verbatim>\<open>src/index.ts\<close>, \<^verbatim>\<open>src/types.ts\<close>). Every error it raises is
  a plain \<^verbatim>\<open>new Error(message)\<close>, and a callback may throw any value. A thrown value is
  modelled by the cases the code tells apart: \<^verbatim>\<open>e != null\<close> separates \<^verbatim>\<open>undefined\<close> and
  \<^verbatim>\<open>null\<close> from the rest, \<^verbatim>\<open>e instanceof Error\<close> separates error objects from the rest,
  and \<^verbatim>\<open>String(e)\<close> reads the value's string form.
  \<^item> \<open>JError name message cause\<close> is an error object; \<open>cause = JUndefined\<close> when the
    \<^verbatim>\<open>cause\<close> property holds \<^verbatim>\<open>undefined\<close>.
  \<^item> \<open>JOther s\<close> is any other non-null value that is not an error object (a number, a
    plain object, ...), carried with the string \<^verbatim>\<open>String\<close> gives for it. Values whose
    conversion itself throws are left out.
\<close>

datatype jsval =
    JUndefined
  | JNull
  | JStr string
  | JOther string
  | JError string string jsval

text \<open>\<^verbatim>\<open>e != null\<close>: loose inequality, false for both \<^verbatim>\<open>null\<close> and \<^verbatim>\<open>undefined\<close>.\<close>

fun not_nullish :: "jsval \<Rightarrow> bool" where
  "not_nullish JUndefined = False"
| "not_nullish JNull = False"
| "not_nullish _ = True"

fun instanceof_Error :: "jsval \<Rightarrow> bool" where
  "instanceof_Error (JError _ _ _) = True"
| "instanceof_Error _ = False"

text \<open>
  \<^verbatim>\<open>String(e)\<close>. For an error object this is \<^verbatim>\<open>Error.prototype.toString\<close>: the name when
  the message is empty, the message when the name is empty, otherwise
  \<^verbatim>\<open>name + ": " + message\<close>.
\<close>

fun String_js :: "jsval \<Rightarrow> string" where
  "String_js JUndefined = ''undefined''"
| "String_js JNull = ''null''"
| "String_js (JStr s) = s"
| "String_js (JOther s) = s"
| "String_js (JError n m _) = (if n = [] then m else if m = [] then n else n @ '': '' @ m)"

text \<open>\<^verbatim>\<open>new Error(message)\<close> and \<^verbatim>\<open>new Error(message, { cause })\<close>.\<close>

definition new_Error :: "string \<Rightarrow> jsval" where
  "new_Error m = JError ''Error'' m JUndefined"

definition new_Error_cause :: "string \<Rightarrow> jsval \<Rightarrow> jsval" where
  "new_Error_cause m c = JError ''Error'' m c"

text \<open>
  The spec's error kinds are the messages the code throws.
\<close>

definition ConfigurationError :: jsval where
  "ConfigurationError = new_Error ''No transactable source present on context''"

definition MissingCallbackError :: jsval where
  "MissingCallbackError = new_Error ''Missing callback function''"

definition NestedTransactionError :: jsval where
  "NestedTransactionError = new_Error
     ''There is already an open transaction, and it does not support nested transactions''"

definition AlreadyCompletedError :: jsval where
  "AlreadyCompletedError = new_Error ''Change set is already committed or rolled back''"

text \<open>
  A call either returns (\<open>Inr\<close>) or throws (\<open>Inl\<close>). The library runs on one logical
  thread and awaits every call it makes, so \<^verbatim>\<open>await f(...)\<close> is sequential composition:
  a rejected promise and a synchronous throw are the same \<open>Inl\<close>. Callbacks act on a
  world \<open>'w\<close> outside the library's own objects (the test suites' stacks and logs) and
  may change it before they throw.
\<close>

type_synonym 'a completion = "jsval + 'a"

text \<open>
  A deferred callback is a closure: besides the context it is called with, it may hold
  the change set it is registered on, and call the set's public methods. Each of them
  begins with the status guard, so the callback can tell how the set's two flags stand at
  the moment it is called. That is all it can do to the set from inside a loop of
  \<^verbatim>\<open>commit()\<close> or \<^verbatim>\<open>rollback()\<close>: on a set built by the constructor the set is marked
  complete and outside the window there, and \<^verbatim>\<open>defer\<close>, \<^verbatim>\<open>deferFail\<close>, \<^verbatim>\<open>commit\<close> and
  \<^verbatim>\<open>rollback\<close> are all rejected and change nothing. A callback therefore takes, after the
  context, a view of the set: the values of \<^verbatim>\<open>done\<close> and \<^verbatim>\<open>ignoreStatus\<close> at the call.
\<close>

record SetView =
  view_done :: bool
  view_ignoreStatus :: bool

type_synonym ('c, 'w) CtxCallback = "'c \<Rightarrow> SetView \<Rightarrow> 'w \<Rightarrow> unit completion \<times> 'w"

text \<open>
  The loop \<^verbatim>\<open>for (const fn of fns) { await fn(ctx); }\<close>: each callback is called with
  \<open>c\<close> and awaited before the next one starts; a throw leaves the loop at once. The
  flags do not change while the loop runs, so every callback of one loop has the same
  view \<open>v\<close>.
\<close>

fun await_each ::
  "'c \<Rightarrow> SetView \<Rightarrow> ('c, 'w) CtxCallback list \<Rightarrow> 'w \<Rightarrow> unit completion \<times> 'w" where
  "await_each c v [] w = (Inr (), w)"
| "await_each c v (fn # fns) w =
     (case fn c v w of
        (Inl e, w') \<Rightarrow> (Inl e, w')
      | (Inr _, w') \<Rightarrow> await_each c v fns w')"

fun is_ok :: "'a completion \<Rightarrow> bool" where
  "is_ok (Inr _) = True"
| "is_ok (Inl _) = False"

section \<open>ChangeSetImpl\<close>

text \<open>
  \<^verbatim>\<open>class ChangeSetImpl\<close>. The field \<^verbatim>\<open>done\<close> is \<open>isDone\<close> here (\<open>done\<close> is a keyword
  of the proof language), and \<^verbatim>\<open>defer\<close>, a keyword too, carries the class name as the
  other methods do. A method of the mutable object takes the object and returns it
  updated, next to the completion of the call.
\<close>

record ('c, 'w) ChangeSetImpl =
  commitFns :: "('c, 'w) CtxCallback list"
  rollbackFns :: "('c, 'w) CtxCallback list"
  ctx :: 'c
  isDone :: bool
  ignoreStatus :: bool

text \<open>The constructor, and \<^verbatim>\<open>csBuilder.beginTxn\<close>, which only calls it.\<close>

definition new_ChangeSetImpl :: "'c \<Rightarrow> ('c, 'w) ChangeSetImpl" where
  "new_ChangeSetImpl c =
     \<lparr>commitFns = [], rollbackFns = [], ctx = c, isDone = False, ignoreStatus = False\<rparr>"

definition csBuilder_beginTxn :: "'c \<Rightarrow> 'w \<Rightarrow> ('c, 'w) ChangeSetImpl completion \<times> 'w" where
  "csBuilder_beginTxn c w = (Inr (new_ChangeSetImpl c), w)"

text \<open>What a callback that holds the set sees of it.\<close>

definition view_of :: "('c, 'w, 'z) ChangeSetImpl_scheme \<Rightarrow> SetView" where
  "view_of cs = \<lparr>view_done = isDone cs, view_ignoreStatus = ignoreStatus cs\<rparr>"

definition checkStatus :: "('c, 'w, 'z) ChangeSetImpl_scheme \<Rightarrow> unit completion" where
  "checkStatus cs = (if isDone cs then Inl AlreadyCompletedError else Inr ())"

definition ChangeSetImpl_defer ::
  "('c, 'w) CtxCallback \<Rightarrow> ('c, 'w, 'z) ChangeSetImpl_scheme
     \<Rightarrow> unit completion \<times> ('c, 'w, 'z) ChangeSetImpl_scheme" where
  "ChangeSetImpl_defer fn cs =
     (case checkStatus cs of
        Inl e \<Rightarrow> (Inl e, cs)
      | Inr _ \<Rightarrow> (Inr (), cs\<lparr>commitFns := commitFns cs @ [fn]\<rparr>))"

definition ChangeSetImpl_deferFail ::
  "('c, 'w) CtxCallback \<Rightarrow> ('c, 'w, 'z) ChangeSetImpl_scheme
     \<Rightarrow> unit completion \<times> ('c, 'w, 'z) ChangeSetImpl_scheme" where
  "ChangeSetImpl_deferFail fn cs =
     (case checkStatus cs of
        Inl e \<Rightarrow> (Inl e, cs)
      | Inr _ \<Rightarrow> (Inr (), cs\<lparr>rollbackFns := rollbackFns cs @ [fn]\<rparr>))"

text \<open>
  \<^verbatim>\<open>commit()\<close>: the guard, then \<^verbatim>\<open>this.done = true\<close>, then the loop inside
  \<^verbatim>\<open>try { ...; ok = true } finally { this.ignoreStatus = !ok }\<close>. The \<^verbatim>\<open>finally\<close> has
  no \<^verbatim>\<open>catch\<close>: what a commit action throws leaves \<^verbatim>\<open>commit()\<close> unchanged. The
  commit actions see the set as the assignment before the loop has left it.
\<close>

definition ChangeSetImpl_commit ::
  "('c, 'w, 'z) ChangeSetImpl_scheme \<Rightarrow> 'w
     \<Rightarrow> unit completion \<times> ('c, 'w, 'z) ChangeSetImpl_scheme \<times> 'w" where
  "ChangeSetImpl_commit cs w =
     (case checkStatus cs of
        Inl e \<Rightarrow> (Inl e, cs, w)
      | Inr _ \<Rightarrow>
          (let cs1 = cs\<lparr>isDone := True\<rparr>;
               c = ctx cs1
           in case await_each c (view_of cs1) (commitFns cs1) w of
                (r, w') \<Rightarrow> (r, cs1\<lparr>ignoreStatus := \<not> is_ok r\<rparr>, w')))"

text \<open>
  \<^verbatim>\<open>rollback()\<close>: inside the window left by a failed commit the flag is cleared and the
  guard is skipped; otherwise the guard applies. Then \<^verbatim>\<open>this.done = true\<close> and the loop
  over the failure actions, which has no \<^verbatim>\<open>try\<close> around it.
\<close>

definition ChangeSetImpl_rollback ::
  "('c, 'w, 'z) ChangeSetImpl_scheme \<Rightarrow> 'w
     \<Rightarrow> unit completion \<times> ('c, 'w, 'z) ChangeSetImpl_scheme \<times> 'w" where
  "ChangeSetImpl_rollback cs w =
     (case (if ignoreStatus cs then Inr (cs\<lparr>ignoreStatus := False\<rparr>)
            else (case checkStatus cs of Inl e \<Rightarrow> Inl e | Inr _ \<Rightarrow> Inr cs)) of
        Inl e \<Rightarrow> (Inl e, cs, w)
      | Inr cs1 \<Rightarrow>
          (let cs2 = cs1\<lparr>isDone := True\<rparr>;
               c = ctx cs2
           in case await_each c (view_of cs2) (rollbackFns cs2) w of
                (r, w') \<Rightarrow> (r, cs2, w')))"

section \<open>Transactions, sources and accessors\<close>

text \<open>
  \<^verbatim>\<open>src/types.ts\<close>. The runner only passes \<^verbatim>\<open>TxnOptions\<close> on to \<^verbatim>\<open>beginTxn\<close>; an absent
  optional member is \<open>None\<close>. The level \<^verbatim>\<open>default\<close> is \<open>isoDefault\<close> here.
\<close>

datatype IsolationLevel =
    isoDefault
  | readUncommitted
  | readCommitted
  | writeCommitted
  | repeatableRead
  | snapshot
  | serializable
  | linearizable

record TxnOptions =
  isolationLevel :: "IsolationLevel option"
  readOnly :: "bool option"

text \<open>
  An object of a type \<^verbatim>\<open>T extends Txn\<close>: its two terminal methods, whatever else the
  concrete type carries (\<open>members\<close>), and the method \<^verbatim>\<open>beginTxn\<close> when the object has
  one. \<^verbatim>\<open>isTransactable\<close> probes for that member with \<^verbatim>\<open>'beginTxn' in x\<close>. The runner
  calls \<^verbatim>\<open>txn.commit()\<close> and \<^verbatim>\<open>txn.rollback()\<close> with no argument.
\<close>

datatype ('c, 'w, 'x) Txn =
  Txn (members: 'x)
      (commit: "'w \<Rightarrow> (jsval + unit) \<times> 'w")
      (rollback: "'w \<Rightarrow> (jsval + unit) \<times> 'w")
      (beginTxn_member:
         "('c \<Rightarrow> TxnOptions option \<Rightarrow> 'w \<Rightarrow> (jsval + ('c, 'w, 'x) Txn) \<times> 'w) option")

text \<open>A \<^verbatim>\<open>Transactable<T>\<close> is an object with the one method \<^verbatim>\<open>beginTxn(ctx, opts?)\<close>.\<close>

type_synonym ('c, 'w, 'x) Transactable =
  "'c \<Rightarrow> TxnOptions option \<Rightarrow> 'w \<Rightarrow> ('c, 'w, 'x) Txn completion \<times> 'w"

type_synonym ('c, 'w, 'x) TxnCallback =
  "'c \<Rightarrow> ('c, 'w, 'x) Txn \<Rightarrow> 'w \<Rightarrow> unit completion \<times> 'w"

record ('c, 'w, 'x) TxnAccessor =
  getTransactable :: "'c \<Rightarrow> ('c, 'w, 'x) Transactable option"
  getTxn :: "'c \<Rightarrow> ('c, 'w, 'x) Txn option"
  withTxn :: "'c \<Rightarrow> ('c, 'w, 'x) Txn \<Rightarrow> 'c"

definition isTransactable :: "('c, 'w, 'x) Txn \<Rightarrow> bool" where
  "isTransactable x = (case beginTxn_member x of Some _ \<Rightarrow> True | None \<Rightarrow> False)"

section \<open>TxnRunnerImpl\<close>

text \<open>
  The overloads \<^verbatim>\<open>run(ctx, fn)\<close> and \<^verbatim>\<open>run(ctx, opts, fn)\<close> share one body that looks at
  \<^verbatim>\<open>typeof fnOrOpts === 'function'\<close>. The second argument is a function, an options
  object, or \<^verbatim>\<open>undefined\<close>; the third is a function or \<^verbatim>\<open>undefined\<close>.
\<close>

datatype ('c, 'w, 'x) FnOrOpts =
    ArgUndefined
  | ArgFn "('c, 'w, 'x) TxnCallback"
  | ArgOpts TxnOptions

definition resolve_args ::
  "('c, 'w, 'x) FnOrOpts \<Rightarrow> ('c, 'w, 'x) TxnCallback option
     \<Rightarrow> ('c, 'w, 'x) TxnCallback option \<times> TxnOptions option" where
  "resolve_args fnOrOpts maybeFn =
     (case fnOrOpts of
        ArgFn fn \<Rightarrow> (Some fn, None)
      | ArgOpts opts \<Rightarrow> (maybeFn, Some opts)
      | ArgUndefined \<Rightarrow> (maybeFn, None))"

text \<open>
  The message and cause of the error \<^verbatim>\<open>run\<close> throws after a rollback:
  \<^verbatim>\<open>new Error(`Transaction failed${errSuffix}`, { cause: e instanceof Error ? e : undefined })\<close>
  with \<^verbatim>\<open>errSuffix = ': ' + String(e)\<close> when \<^verbatim>\<open>e != null\<close> and empty otherwise.
\<close>

definition errSuffix :: "jsval \<Rightarrow> string" where
  "errSuffix e = (if not_nullish e then '': '' @ String_js e else [])"

definition TransactionFailed :: "jsval \<Rightarrow> jsval" where
  "TransactionFailed e =
     new_Error_cause (''Transaction failed'' @ errSuffix e)
       (if instanceof_Error e then e else JUndefined)"

text \<open>
  \<^verbatim>\<open>run\<close>, in the order of the source: the source of transactions, the callback, the
  transaction already on the context, \<^verbatim>\<open>beginTxn\<close> (outside the \<^verbatim>\<open>try\<close>, so what it
  throws leaves \<^verbatim>\<open>run\<close> as it is), then the \<^verbatim>\<open>try\<close> with the callback and the commit, and
  the \<^verbatim>\<open>catch\<close> with the rollback (not guarded: what it throws leaves \<^verbatim>\<open>run\<close> too) and
  the failure error. The probe \<^verbatim>\<open>isTransactable(existingTxn)\<close> and the assignment
  \<^verbatim>\<open>txnSrc = existingTxn\<close> are one case distinction on the member \<^verbatim>\<open>beginTxn\<close>. The
  accessor's getters and setter only read and extend the context.
\<close>

definition TxnRunnerImpl_run ::
  "('c, 'w, 'x) TxnAccessor \<Rightarrow> 'c \<Rightarrow> ('c, 'w, 'x) FnOrOpts
     \<Rightarrow> ('c, 'w, 'x) TxnCallback option \<Rightarrow> 'w \<Rightarrow> unit completion \<times> 'w" where
  "TxnRunnerImpl_run acc c fnOrOpts maybeFn w =
     (case resolve_args fnOrOpts maybeFn of (fn_opt, opts) \<Rightarrow>
      (case getTransactable acc c of
         None \<Rightarrow> (Inl ConfigurationError, w)
       | Some txnSrc0 \<Rightarrow>
      (case fn_opt of
         None \<Rightarrow> (Inl MissingCallbackError, w)
       | Some fn \<Rightarrow>
      (case (case getTxn acc c of
               None \<Rightarrow> Inr txnSrc0
             | Some existingTxn \<Rightarrow>
                 (case beginTxn_member existingTxn of
                    Some nested \<Rightarrow> Inr nested
                  | None \<Rightarrow> Inl NestedTransactionError)) of
         Inl e \<Rightarrow> (Inl e, w)
       | Inr txnSrc \<Rightarrow>
      (case txnSrc c opts w of
         (Inl e, w1) \<Rightarrow> (Inl e, w1)
       | (Inr txn, w1) \<Rightarrow>
          (let txnContext = withTxn acc c txn in
           case (case fn txnContext txn w1 of
                   (Inl e, w2) \<Rightarrow> (Inl e, w2)
                 | (Inr _, w2) \<Rightarrow> commit txn w2) of
             (Inr _, w3) \<Rightarrow> (Inr (), w3)
           | (Inl e, w3) \<Rightarrow>
               (case rollback txn w3 of
                  (Inl e', w4) \<Rightarrow> (Inl e', w4)
                | (Inr _, w4) \<Rightarrow> (Inl (TransactionFailed e), w4))))))))"

text \<open>
  \<^verbatim>\<open>in\<close>: with a transaction on the context, \<^verbatim>\<open>await fn(ctx, existingTxn)\<close> and return;
  calling an \<^verbatim>\<open>undefined\<close> callback there is a \<^verbatim>\<open>TypeError\<close>. Otherwise
  \<^verbatim>\<open>this.run(ctx, fn)\<close> when \<^verbatim>\<open>opts == undefined\<close> and \<^verbatim>\<open>this.run(ctx, opts, fn)\<close> when not.
\<close>

definition not_a_function :: jsval where
  "not_a_function = JError ''TypeError'' ''fn is not a function'' JUndefined"

definition as_argument :: "('c, 'w, 'x) TxnCallback option \<Rightarrow> ('c, 'w, 'x) FnOrOpts" where
  "as_argument fn_opt = (case fn_opt of Some fn \<Rightarrow> ArgFn fn | None \<Rightarrow> ArgUndefined)"

definition TxnRunnerImpl_in ::
  "('c, 'w, 'x) TxnAccessor \<Rightarrow> 'c \<Rightarrow> ('c, 'w, 'x) FnOrOpts
     \<Rightarrow> ('c, 'w, 'x) TxnCallback option \<Rightarrow> 'w \<Rightarrow> unit completion \<times> 'w" where
  "TxnRunnerImpl_in acc c fnOrOpts maybeFn w =
     (case resolve_args fnOrOpts maybeFn of (fn_opt, opts) \<Rightarrow>
      (case getTxn acc c of
         Some existingTxn \<Rightarrow>
           (case fn_opt of
              Some fn \<Rightarrow> fn c existingTxn w
            | None \<Rightarrow> (Inl not_a_function, w))
       | None \<Rightarrow>
           (case opts of
              None \<Rightarrow> TxnRunnerImpl_run acc c (as_argument fn_opt) None w
            | Some given \<Rightarrow> TxnRunnerImpl_run acc c (ArgOpts given) fn_opt w)))"

text \<open>
  The interface \<^verbatim>\<open>TxnRunner<T>\<close>, and the object \<^verbatim>\<open>new TxnRunnerImpl(accessor)\<close>. The member
  \<^verbatim>\<open>in\<close> is \<open>run_in\<close> here (\<open>in\<close> is a keyword).
\<close>

record ('c, 'w, 'x) TxnRunner =
  run :: "'c \<Rightarrow> ('c, 'w, 'x) FnOrOpts \<Rightarrow> ('c, 'w, 'x) TxnCallback option
            \<Rightarrow> 'w \<Rightarrow> unit completion \<times> 'w"
  run_in :: "'c \<Rightarrow> ('c, 'w, 'x) FnOrOpts \<Rightarrow> ('c, 'w, 'x) TxnCallback option
            \<Rightarrow> 'w \<Rightarrow> unit completion \<times> 'w"

definition new_TxnRunnerImpl :: "('c, 'w, 'x) TxnAccessor \<Rightarrow> ('c, 'w, 'x) TxnRunner" where
  "new_TxnRunnerImpl acc = \<lparr>run = TxnRunnerImpl_run acc, run_in = TxnRunnerImpl_in acc\<rparr>"

section \<open>TxnChangeSetImpl\<close>

text \<open>
  \<^verbatim>\<open>class TxnChangeSetImpl<T> extends ChangeSetImpl\<close>: two more private fields. The
  inherited methods are the ones above, at the extended record.
\<close>

record ('c, 'w, 'x) TxnChangeSetImpl = "('c, 'w) ChangeSetImpl" +
  commitTxn :: "('c, 'w, 'x) TxnCallback list"
  txnRunner :: "('c, 'w, 'x) TxnRunner"

definition new_TxnChangeSetImpl ::
  "'c \<Rightarrow> ('c, 'w, 'x) TxnRunner \<Rightarrow> ('c, 'w, 'x) TxnChangeSetImpl" where
  "new_TxnChangeSetImpl c runner =
     \<lparr>commitFns = [], rollbackFns = [], ctx = c, isDone = False, ignoreStatus = False,
      commitTxn = [], txnRunner = runner\<rparr>"

text \<open>\<^verbatim>\<open>deferTxn(fn) { this.#commitTxn.push(fn); }\<close>: the whole body.\<close>

definition TxnChangeSetImpl_deferTxn ::
  "('c, 'w, 'x) TxnCallback \<Rightarrow> ('c, 'w, 'x) TxnChangeSetImpl
     \<Rightarrow> unit completion \<times> ('c, 'w, 'x) TxnChangeSetImpl" where
  "TxnChangeSetImpl_deferTxn fn cs = (Inr (), cs\<lparr>commitTxn := commitTxn cs @ [fn]\<rparr>)"

text \<open>The callback handed to the runner: \<^verbatim>\<open>for (const fn of this.#commitTxn) await fn(txCtx, txn)\<close>.\<close>

fun await_each_txn ::
  "('c, 'w, 'x) TxnCallback list \<Rightarrow> 'c \<Rightarrow> ('c, 'w, 'x) Txn \<Rightarrow> 'w \<Rightarrow> unit completion \<times> 'w" where
  "await_each_txn [] txCtx txn w = (Inr (), w)"
| "await_each_txn (fn # fns) txCtx txn w =
     (case fn txCtx txn w of
        (Inl e, w') \<Rightarrow> (Inl e, w')
      | (Inr _, w') \<Rightarrow> await_each_txn fns txCtx txn w')"

text \<open>
  \<^verbatim>\<open>commit()\<close> of the subclass: guard, \<^verbatim>\<open>this.done = true\<close>, the transactional phase when
  \<^verbatim>\<open>this.#commitTxn.length > 0\<close> (inside its own \<^verbatim>\<open>try\<close>/\<^verbatim>\<open>finally\<close>), then the loop of
  the base class over \<^verbatim>\<open>commitFns\<close> inside a second \<^verbatim>\<open>try\<close>/\<^verbatim>\<open>finally\<close>. The
  transactional actions are callbacks of the runner (\<^verbatim>\<open>TxnCallback\<close>), called with the
  runner's context and transaction.
\<close>

definition TxnChangeSetImpl_commit ::
  "('c, 'w, 'x) TxnChangeSetImpl \<Rightarrow> 'w
     \<Rightarrow> unit completion \<times> ('c, 'w, 'x) TxnChangeSetImpl \<times> 'w" where
  "TxnChangeSetImpl_commit cs w =
     (case checkStatus cs of
        Inl e \<Rightarrow> (Inl e, cs, w)
      | Inr _ \<Rightarrow>
          (let cs1 = cs\<lparr>isDone := True\<rparr>;
               c = ctx cs1
           in case (if length (commitTxn cs1) > 0
                    then (case run (txnRunner cs1) c (ArgFn (await_each_txn (commitTxn cs1))) None w of
                            (r, w1) \<Rightarrow> (r, cs1\<lparr>ignoreStatus := \<not> is_ok r\<rparr>, w1))
                    else (Inr (), cs1, w)) of
                (Inl e, cs2, w1) \<Rightarrow> (Inl e, cs2, w1)
              | (Inr _, cs2, w1) \<Rightarrow>
                  (case await_each c (view_of cs2) (commitFns cs2) w1 of
                     (r, w2) \<Rightarrow> (r, cs2\<lparr>ignoreStatus := \<not> is_ok r\<rparr>, w2))))"

section \<open>Clients and observers\<close>

text \<open>
  A client of a change set calls its four methods one after the other and goes on after a
  call that throws. \<open>invoke\<close> is one such call, \<open>invoke_all\<close> a sequence of them.
  Registration has no access to the world: only \<^verbatim>\<open>commit\<close> and \<^verbatim>\<open>rollback\<close> run callbacks.
  The interfaces \<^verbatim>\<open>Txn\<close> and \<^verbatim>\<open>ChangeSet\<close> declare \<^verbatim>\<open>commit(ctx)\<close> and \<^verbatim>\<open>rollback(ctx)\<close>, so a
  caller may pass a context (\<open>Some c\<close>); \<^verbatim>\<open>ChangeSetImpl\<close> declares both methods with no
  parameter, and the argument is dropped.
\<close>

datatype ('c, 'w) Call =
    Defer "('c, 'w) CtxCallback"
  | DeferFail "('c, 'w) CtxCallback"
  | Commit "'c option"
  | Rollback "'c option"

fun invoke ::
  "('c, 'w) Call \<Rightarrow> ('c, 'w, 'z) ChangeSetImpl_scheme \<Rightarrow> 'w
     \<Rightarrow> unit completion \<times> ('c, 'w, 'z) ChangeSetImpl_scheme \<times> 'w" where
  "invoke (Defer fn) cs w = (case ChangeSetImpl_defer fn cs of (r, cs') \<Rightarrow> (r, cs', w))"
| "invoke (DeferFail fn) cs w = (case ChangeSetImpl_deferFail fn cs of (r, cs') \<Rightarrow> (r, cs', w))"
| "invoke (Commit arg) cs w = ChangeSetImpl_commit cs w"
| "invoke (Rollback arg) cs w = ChangeSetImpl_rollback cs w"

fun invoke_all ::
  "('c, 'w) Call list \<Rightarrow> ('c, 'w, 'z) ChangeSetImpl_scheme \<Rightarrow> 'w
     \<Rightarrow> ('c, 'w, 'z) ChangeSetImpl_scheme \<times> 'w" where
  "invoke_all [] cs w = (cs, w)"
| "invoke_all (x # xs) cs w = (case invoke x cs w of (_, cs', w') \<Rightarrow> invoke_all xs cs' w')"

text \<open>
  To observe which callbacks run, in what order and with which context, a callback is
  wrapped in a spy, as a test would: \<open>spy i fn\<close> behaves as \<open>fn\<close> on the world and
  appends \<open>(i, c)\<close> to a log of calls when it is called with context \<open>c\<close>, whether \<open>fn\<close>
  returns or throws. \<open>spies k fns\<close> numbers the callbacks of a list from \<open>k\<close> on.
\<close>

definition spy :: "nat \<Rightarrow> ('c, 'w) CtxCallback \<Rightarrow> ('c, 'w \<times> (nat \<times> 'c) list) CtxCallback" where
  "spy i fn = (\<lambda>c v (w, calls). case fn c v w of (r, w') \<Rightarrow> (r, (w', calls @ [(i, c)])))"

fun spies ::
  "nat \<Rightarrow> ('c, 'w) CtxCallback list \<Rightarrow> ('c, 'w \<times> (nat \<times> 'c) list) CtxCallback list" where
  "spies k [] = []"
| "spies k (fn # fns) = spy k fn # spies (Suc k) fns"

text \<open>
  A watch is a spy that also writes down whether the set was marked complete when the
  callback was called: \<open>watch i fn\<close> appends \<open>(i, c, view_done v)\<close>.
\<close>

definition watch ::
  "nat \<Rightarrow> ('c, 'w) CtxCallback \<Rightarrow> ('c, 'w \<times> (nat \<times> 'c \<times> bool) list) CtxCallback" where
  "watch i fn =
     (\<lambda>c v (w, calls). case fn c v w of (r, w') \<Rightarrow> (r, (w', calls @ [(i, c, view_done v)])))"

fun watches ::
  "nat \<Rightarrow> ('c, 'w) CtxCallback list
     \<Rightarrow> ('c, 'w \<times> (nat \<times> 'c \<times> bool) list) CtxCallback list" where
  "watches k [] = []"
| "watches k (fn # fns) = watch k fn # watches (Suc k) fns"

fun spy_call :: "nat \<times> ('c, 'w) Call \<Rightarrow> ('c, 'w \<times> (nat \<times> 'c) list) Call" where
  "spy_call (i, Defer fn) = Defer (spy i fn)"
| "spy_call (i, DeferFail fn) = DeferFail (spy i fn)"
| "spy_call (i, Commit arg) = Commit arg"
| "spy_call (i, Rollback arg) = Rollback arg"

subsection \<open>Concrete callbacks and objects\<close>

text \<open>
  The callbacks of the test suites: one that pushes a string on a stack, one that throws.
  The world is the stack; contexts are named by strings.
\<close>

definition push :: "string \<Rightarrow> (string, string list) CtxCallback" where
  "push s = (\<lambda>c v w. (Inr (), w @ [s]))"

definition throwing :: "jsval \<Rightarrow> (string, string list) CtxCallback" where
  "throwing e = (\<lambda>c v w. (Inl e, w))"

definition on_purpose :: jsval where
  "on_purpose = new_Error ''Rolling back on purpose''"

text \<open>
  A backend whose every operation writes its name on the stack. \<open>plain_txn\<close> has no
  \<^verbatim>\<open>beginTxn\<close>; \<open>nestable_txn\<close> has one, which opens \<open>plain_txn\<close>. The accessor finds
  \<open>plain_txn\<close> on the context \<open>''in plain''\<close>, \<open>nestable_txn\<close> on \<open>''in nestable''\<close>, no
  transaction on any other context, and no source on \<open>''bare''\<close>.
\<close>

definition plain_txn :: "(string, string list, string) Txn" where
  "plain_txn = Txn ''plain''
     (\<lambda>w. (Inr (), w @ [''commit plain'']))
     (\<lambda>w. (Inr (), w @ [''rollback plain'']))
     None"

definition nested_beginTxn :: "(string, string list, string) Transactable" where
  "nested_beginTxn = (\<lambda>c opts w. (Inr plain_txn, w @ [''begin nested'']))"

definition nestable_txn :: "(string, string list, string) Txn" where
  "nestable_txn = Txn ''nestable''
     (\<lambda>w. (Inr (), w @ [''commit nestable'']))
     (\<lambda>w. (Inr (), w @ [''rollback nestable'']))
     (Some nested_beginTxn)"

definition pool_beginTxn :: "(string, string list, string) Transactable" where
  "pool_beginTxn = (\<lambda>c opts w. (Inr plain_txn, w @ [''begin'']))"

definition stack_accessor :: "(string, string list, string) TxnAccessor" where
  "stack_accessor =
     \<lparr>getTransactable = (\<lambda>c. if c = ''bare'' then None else Some pool_beginTxn),
      getTxn = (\<lambda>c. if c = ''in plain'' then Some plain_txn
                     else if c = ''in nestable'' then Some nestable_txn else None),
      withTxn = (\<lambda>c t. ''in '' @ members t)\<rparr>"

text \<open>
  Two transactions that cannot roll back: \<open>stuck_txn\<close> commits, \<open>broken_txn\<close> cannot
  commit either. \<open>fragile_txn\<close> cannot commit, throws a string when asked to, and rolls
  back. \<open>accessor_for txn\<close> is an accessor whose source opens \<open>txn\<close>, on a
  context that carries no transaction. The source of \<open>trapped_accessor\<close> throws, as the
  booby-trapped pool of the test suite does.
\<close>

definition rollback_failed :: jsval where
  "rollback_failed = new_Error ''cannot roll back''"

definition commit_failed :: jsval where
  "commit_failed = new_Error ''cannot commit''"

definition stuck_txn :: "(string, string list, string) Txn" where
  "stuck_txn = Txn ''stuck''
     (\<lambda>w. (Inr (), w @ [''commit stuck'']))
     (\<lambda>w. (Inl rollback_failed, w @ [''rollback stuck'']))
     None"

definition broken_txn :: "(string, string list, string) Txn" where
  "broken_txn = Txn ''broken''
     (\<lambda>w. (Inl commit_failed, w @ [''commit broken'']))
     (\<lambda>w. (Inl rollback_failed, w @ [''rollback broken'']))
     None"

definition fragile_txn :: "(string, string list, string) Txn" where
  "fragile_txn = Txn ''fragile''
     (\<lambda>w. (Inl (JStr ''disk full''), w @ [''commit fragile'']))
     (\<lambda>w. (Inr (), w @ [''rollback fragile'']))
     None"

definition accessor_for ::
  "(string, string list, string) Txn \<Rightarrow> (string, string list, string) TxnAccessor" where
  "accessor_for txn =
     \<lparr>getTransactable = (\<lambda>c. Some (\<lambda>c opts w. (Inr txn, w @ [''begin'']))),
      getTxn = (\<lambda>c. None),
      withTxn = (\<lambda>c t. ''in '' @ members t)\<rparr>"

definition no_transactions :: jsval where
  "no_transactions = new_Error ''No transactions for you!''"

definition trapped_accessor :: "(string, string list, string) TxnAccessor" where
  "trapped_accessor =
     \<lparr>getTransactable = (\<lambda>c. Some (\<lambda>c opts w. (Inl no_transactions, w @ [''begin'']))),
      getTxn = (\<lambda>c. None),
      withTxn = (\<lambda>c t. ''in '' @ members t)\<rparr>"

definition txn_push :: "string \<Rightarrow> (string, string list, string) TxnCallback" where
  "txn_push s = (\<lambda>c t w. (Inr (), w @ [s]))"

definition txn_throwing :: "jsval \<Rightarrow> (string, string list, string) TxnCallback" where
  "txn_throwing e = (\<lambda>c t w. (Inl e, w))"

text \<open>A callback that writes down the context and the transaction it is called with.\<close>

definition note_call :: "(string, string list, string) TxnCallback" where
  "note_call = (\<lambda>c t w. (Inr (), w @ [c, members t]))"

text \<open>
  Change sets as the tests build them: two commit actions around one that throws, and
  one failure action.
\<close>

definition failing_commit_set :: "(string, string list) ChangeSetImpl" where
  "failing_commit_set =
     \<lparr>commitFns = [push ''a'', throwing on_purpose, push ''b''],
      rollbackFns = [push ''undo''],
      ctx = ''ctx'', isDone = False, ignoreStatus = False\<rparr>"

text \<open>
  A set whose one commit action throws and whose one failure action throws too.
\<close>

definition cleanup_failed :: jsval where
  "cleanup_failed = new_Error ''cleanup failed''"

definition failing_rollback_set :: "(string, string list) ChangeSetImpl" where
  "failing_rollback_set =
     \<lparr>commitFns = [throwing on_purpose],
      rollbackFns = [throwing cleanup_failed],
      ctx = ''ctx'', isDone = False, ignoreStatus = False\<rparr>"

text \<open>
  A set as a failed commit leaves it (its one commit action throws), with three spied
  failure actions, the second of which throws.
\<close>

definition spied_failures :: "(string, string list \<times> (nat \<times> string) list) ChangeSetImpl" where
  "spied_failures =
     \<lparr>commitFns = [spy 0 (throwing on_purpose)],
      rollbackFns = spies 0 [push ''failed1'', throwing on_purpose, push ''failed2''],
      ctx = ''ctx'', isDone = True, ignoreStatus = True\<rparr>"

text \<open>
  A transaction change set with no transactional action, over the trapped source; and one
  on which \<^verbatim>\<open>commit()\<close> has completed.
\<close>

definition only_plain_actions :: "(string, string list, string) TxnChangeSetImpl" where
  "only_plain_actions =
     (new_TxnChangeSetImpl ''ctx'' (new_TxnRunnerImpl trapped_accessor))
       \<lparr>commitFns := [push ''c'', push ''Pushed c!''],
        rollbackFns := [push ''Called error callback'']\<rparr>"

definition completed_txn_set :: "(string, string list, string) TxnChangeSetImpl" where
  "completed_txn_set =
     fst (snd (TxnChangeSetImpl_commit
                 (new_TxnChangeSetImpl ''ctx'' (new_TxnRunnerImpl stack_accessor)) []))"

text \<open>
  The invariant behind the contexts that callbacks see: the set keeps the context \<open>c0\<close>,
  every registered callback is a spy, and every call logged so far was made with \<open>c0\<close>.
\<close>

definition ctx_inv ::
  "'c \<Rightarrow> ('c, 'w \<times> (nat \<times> 'c) list, 'z) ChangeSetImpl_scheme \<Rightarrow> (nat \<times> 'c) list \<Rightarrow> bool" where
  "ctx_inv c0 cs calls \<longleftrightarrow>
     ctx cs = c0 \<and> (\<forall>f\<in>set (commitFns cs). \<exists>i g. f = spy i g) \<and>
     (\<forall>f\<in>set (rollbackFns cs). \<exists>i g. f = spy i g) \<and> (\<forall>p\<in>set calls. snd p = c0)"

section \<open>The status guard of a change set\<close>

lemma commit_rejected:
  "isDone cs \<Longrightarrow> ChangeSetImpl_commit cs w = (Inl AlreadyCompletedError, cs, w)"
  by (simp add: ChangeSetImpl_commit_def checkStatus_def)

lemma rollback_rejected:
  "isDone cs \<Longrightarrow> \<not> ignoreStatus cs \<Longrightarrow>
     ChangeSetImpl_rollback cs w = (Inl AlreadyCompletedError, cs, w)"
  by (simp add: ChangeSetImpl_rollback_def checkStatus_def)

lemma commit_open:
  "\<not> isDone cs \<Longrightarrow>
     ChangeSetImpl_commit cs w =
       (case await_each (ctx cs) \<lparr>view_done = True, view_ignoreStatus = ignoreStatus cs\<rparr>
               (commitFns cs) w of
          (r, w') \<Rightarrow> (r, cs\<lparr>isDone := True, ignoreStatus := \<not> is_ok r\<rparr>, w'))"
  by (simp add: ChangeSetImpl_commit_def checkStatus_def view_of_def Let_def)

lemma rollback_permitted:
  "\<not> isDone cs \<or> ignoreStatus cs \<Longrightarrow>
     ChangeSetImpl_rollback cs w =
       (case await_each (ctx cs) \<lparr>view_done = True, view_ignoreStatus = False\<rparr>
               (rollbackFns cs) w of
          (r, w') \<Rightarrow> (r, cs\<lparr>ignoreStatus := False, isDone := True\<rparr>, w'))"
  by (auto simp add: ChangeSetImpl_rollback_def checkStatus_def view_of_def Let_def
           split: prod.splits)

text \<open>
  Claim C1, as stated, fails in its exception: the rollback that follows a failed commit
  is let through by the guard, but it succeeds only if the failure actions do. On a set
  whose commit action throws and whose failure action throws, \<^verbatim>\<open>commit()\<close> throws, the
  \<^verbatim>\<open>rollback()\<close> after it throws what the failure action threw, and the next
  \<^verbatim>\<open>rollback()\<close> is rejected: no rollback has succeeded.
\<close>

theorem window_rollback_can_throw:
  "fst (ChangeSetImpl_commit failing_rollback_set []) = Inl on_purpose \<and>
   fst (ChangeSetImpl_rollback (fst (snd (ChangeSetImpl_commit failing_rollback_set []))) [])
     = Inl cleanup_failed \<and>
   fst (ChangeSetImpl_rollback
          (fst (snd (ChangeSetImpl_rollback
                       (fst (snd (ChangeSetImpl_commit failing_rollback_set []))) []))) [])
     = Inl AlreadyCompletedError"
  by (simp add: ChangeSetImpl_commit_def ChangeSetImpl_rollback_def checkStatus_def view_of_def
        failing_rollback_set_def throwing_def Let_def)

text \<open>
  Claim C1, amended. Take any change set that is still open. Once \<^verbatim>\<open>commit()\<close> has
  completed on it, by returning or by throwing what a commit action threw, a second
  \<^verbatim>\<open>commit()\<close> throws the already-completed error and leaves the set as it is. If the
  commit returned, a following \<^verbatim>\<open>rollback()\<close> throws that error too. If the commit threw,
  the following \<^verbatim>\<open>rollback()\<close> is let through by the guard: its completion and its
  effect are those of running the failure actions, with the set's context and in view of
  a completed set. So it succeeds provided no failure action throws, and throws what a
  failure action threw otherwise. Either way the exception is used up: after it both
  \<^verbatim>\<open>commit()\<close> and \<^verbatim>\<open>rollback()\<close> throw the already-completed error. Once \<^verbatim>\<open>rollback()\<close>
  has completed on the open set, both methods throw the already-completed error. The
  worlds \<open>w\<close>, \<open>v\<close>, \<open>u\<close> at the calls are arbitrary.
\<close>

theorem second_terminal_call_rejected:
  assumes "\<not> isDone cs"
  shows "(case ChangeSetImpl_commit cs w of (r, cs1, w1) \<Rightarrow>
            ChangeSetImpl_commit cs1 v = (Inl AlreadyCompletedError, cs1, v) \<and>
            (case r of
               Inr _ \<Rightarrow> ChangeSetImpl_rollback cs1 v = (Inl AlreadyCompletedError, cs1, v)
             | Inl e \<Rightarrow>
                 (case ChangeSetImpl_rollback cs1 v of (r2, cs2, v2) \<Rightarrow>
                    (r2, v2) = await_each (ctx cs) \<lparr>view_done = True, view_ignoreStatus = False\<rparr>
                                 (rollbackFns cs) v \<and>
                    ChangeSetImpl_commit cs2 u = (Inl AlreadyCompletedError, cs2, u) \<and>
                    ChangeSetImpl_rollback cs2 u = (Inl AlreadyCompletedError, cs2, u))))
         \<and> (case ChangeSetImpl_rollback cs w of (r, cs1, w1) \<Rightarrow>
            ChangeSetImpl_commit cs1 v = (Inl AlreadyCompletedError, cs1, v) \<and>
            ChangeSetImpl_rollback cs1 v = (Inl AlreadyCompletedError, cs1, v))"
proof -
  let ?seen = "\<lparr>view_done = True, view_ignoreStatus = ignoreStatus cs\<rparr>"
  let ?closed = "\<lparr>view_done = True, view_ignoreStatus = False\<rparr>"
  obtain r w1 where run: "await_each (ctx cs) ?seen (commitFns cs) w = (r, w1)"
    by (cases "await_each (ctx cs) ?seen (commitFns cs) w")
  obtain r2 v2 where rb: "await_each (ctx cs) ?closed (rollbackFns cs) v = (r2, v2)"
    by (cases "await_each (ctx cs) ?closed (rollbackFns cs) v")
  obtain r3 w3 where rb0: "await_each (ctx cs) ?closed (rollbackFns cs) w = (r3, w3)"
    by (cases "await_each (ctx cs) ?closed (rollbackFns cs) w")
  show ?thesis
    using assms run rb rb0
    by (cases r) (simp_all add: commit_open commit_rejected rollback_rejected rollback_permitted)
qed

theorem second_terminal_call_rejected_witness:
  "\<not> isDone failing_commit_set \<and>
   (case ChangeSetImpl_commit failing_commit_set [] of (r, cs1, w1) \<Rightarrow>
      r = Inl on_purpose \<and> w1 = [''a''] \<and>
      fst (ChangeSetImpl_commit cs1 [''a'']) = Inl AlreadyCompletedError \<and>
      (case ChangeSetImpl_rollback cs1 [''a''] of (r2, cs2, v2) \<Rightarrow>
         r2 = Inr () \<and> v2 = [''a'', ''undo''] \<and>
         fst (ChangeSetImpl_commit cs2 [''a'', ''undo'']) = Inl AlreadyCompletedError \<and>
         fst (ChangeSetImpl_rollback cs2 [''a'', ''undo'']) = Inl AlreadyCompletedError))"
proof -
  have h: "\<not> isDone failing_commit_set"
    by (simp add: failing_commit_set_def)
  have c: "ChangeSetImpl_commit failing_commit_set [] =
             (Inl on_purpose, failing_commit_set\<lparr>isDone := True, ignoreStatus := True\<rparr>, [''a''])"
    by (simp add: commit_open [OF h]) (simp add: failing_commit_set_def push_def throwing_def)
  have f: "await_each (ctx failing_commit_set) \<lparr>view_done = True, view_ignoreStatus = False\<rparr>
             (rollbackFns failing_commit_set) [''a'']
             = (Inr (), [''a'', ''undo''])"
    by (simp add: failing_commit_set_def push_def)
  show ?thesis
    using h second_terminal_call_rejected
      [OF h, where w = "[]" and v = "[''a'']" and u = "[''a'', ''undo'']"]
    by (simp add: c f split: prod.splits)
qed

section \<open>Order of the deferred actions\<close>

lemma spy_apply:
  "spy i fn c v (w, calls) = (case fn c v w of (r, w') \<Rightarrow> (r, (w', calls @ [(i, c)])))"
  by (simp add: spy_def)

lemma watch_apply:
  "watch i fn c v (w, calls) =
     (case fn c v w of (r, w') \<Rightarrow> (r, (w', calls @ [(i, c, view_done v)])))"
  by (simp add: watch_def)

text \<open>
  What the loop does with spied callbacks numbered from \<open>k\<close>: it calls the first \<open>n\<close>
  of them, in order, each once and each with the context \<open>c\<close>. When the loop returns,
  \<open>n\<close> is the whole list. When it throws \<open>e\<close>, the callbacks before the last one called
  returned and the last one called threw \<open>e\<close>. The world is the one the callbacks
  themselves leave.
\<close>

lemma await_each_spies:
  "await_each c v (spies k fns) (w, calls) = (r, (w', calls')) \<Longrightarrow>
     \<exists>n\<le>length fns. calls' = calls @ map (\<lambda>i. (i, c)) [k..<k + n] \<and>
        (case r of
           Inr _ \<Rightarrow> n = length fns \<and> await_each c v fns w = (Inr (), w')
         | Inl e \<Rightarrow> 0 < n \<and>
             (\<exists>w1. await_each c v (take (n - 1) fns) w = (Inr (), w1) \<and>
                   (fns ! (n - 1)) c v w1 = (Inl e, w')))"
proof (induction fns arbitrary: k w calls)
  case Nil
  then show ?case by auto
next
  case (Cons fn fns)
  obtain r1 w1 where head: "fn c v w = (r1, w1)" by (cases "fn c v w")
  show ?case
  proof (cases r1)
    case (Inl e)
    with Cons.prems head have "r = Inl e" "w' = w1" "calls' = calls @ [(k, c)]"
      by (simp_all add: spy_apply)
    with head Inl show ?thesis
      by (intro exI [of _ 1]) simp
  next
    case (Inr u)
    with Cons.prems head
    have rest: "await_each c v (spies (Suc k) fns) (w1, calls @ [(k, c)]) = (r, (w', calls'))"
      by (simp add: spy_apply)
    from Cons.IH [OF rest] obtain n where
      n: "n \<le> length fns" "calls' = (calls @ [(k, c)]) @ map (\<lambda>i. (i, c)) [Suc k..<Suc k + n]"
      and res: "(case r of
           Inr _ \<Rightarrow> n = length fns \<and> await_each c v fns w1 = (Inr (), w')
         | Inl e \<Rightarrow> 0 < n \<and>
             (\<exists>w2. await_each c v (take (n - 1) fns) w1 = (Inr (), w2) \<and>
                   (fns ! (n - 1)) c v w2 = (Inl e, w')))"
      by blast
    have calls: "calls' = calls @ map (\<lambda>i. (i, c)) [k..<k + Suc n]"
      using n(2) by (simp add: upt_conv_Cons)
    have "case r of
           Inr _ \<Rightarrow> Suc n = length (fn # fns) \<and> await_each c v (fn # fns) w = (Inr (), w')
         | Inl e \<Rightarrow> 0 < Suc n \<and>
             (\<exists>w2. await_each c v (take (Suc n - 1) (fn # fns)) w = (Inr (), w2) \<and>
                   ((fn # fns) ! (Suc n - 1)) c v w2 = (Inl e, w'))"
    proof (cases r)
      case (Inl e)
      with res obtain w2 where "0 < n"
        "await_each c v (take (n - 1) fns) w1 = (Inr (), w2)"
        "(fns ! (n - 1)) c v w2 = (Inl e, w')"
        by auto
      with head Inr Inl show ?thesis
        by (cases n) auto
    next
      case (Inr u')
      with res head \<open>r1 = Inr u\<close> show ?thesis by simp
    qed
    with calls n(1) show ?thesis
      by (intro exI [of _ "Suc n"]) simp
  qed
qed

text \<open>
  The same for watched callbacks: every entry of the log also carries what the callback
  saw of the flag \<^verbatim>\<open>done\<close>, which is the \<open>view_done\<close> of the view the loop runs with.
\<close>

lemma await_each_watches:
  "await_each c v (watches k fns) (w, calls) = (r, (w', calls')) \<Longrightarrow>
     \<exists>n\<le>length fns. calls' = calls @ map (\<lambda>i. (i, c, view_done v)) [k..<k + n] \<and>
        (case r of
           Inr _ \<Rightarrow> n = length fns \<and> await_each c v fns w = (Inr (), w')
         | Inl e \<Rightarrow> 0 < n \<and>
             (\<exists>w1. await_each c v (take (n - 1) fns) w = (Inr (), w1) \<and>
                   (fns ! (n - 1)) c v w1 = (Inl e, w')))"
proof (induction fns arbitrary: k w calls)
  case Nil
  then show ?case by auto
next
  case (Cons fn fns)
  let ?entry = "\<lambda>i. (i, c, view_done v)"
  obtain r1 w1 where head: "fn c v w = (r1, w1)" by (cases "fn c v w")
  show ?case
  proof (cases r1)
    case (Inl e)
    with Cons.prems head have "r = Inl e" "w' = w1" "calls' = calls @ [?entry k]"
      by (simp_all add: watch_apply)
    with head Inl show ?thesis
      by (intro exI [of _ 1]) simp
  next
    case (Inr u)
    with Cons.prems head
    have rest: "await_each c v (watches (Suc k) fns) (w1, calls @ [?entry k]) = (r, (w', calls'))"
      by (simp add: watch_apply)
    from Cons.IH [OF rest] obtain n where
      n: "n \<le> length fns" "calls' = (calls @ [?entry k]) @ map ?entry [Suc k..<Suc k + n]"
      and res: "(case r of
           Inr _ \<Rightarrow> n = length fns \<and> await_each c v fns w1 = (Inr (), w')
         | Inl e \<Rightarrow> 0 < n \<and>
             (\<exists>w2. await_each c v (take (n - 1) fns) w1 = (Inr (), w2) \<and>
                   (fns ! (n - 1)) c v w2 = (Inl e, w')))"
      by blast
    have calls: "calls' = calls @ map ?entry [k..<k + Suc n]"
      using n(2) by (simp add: upt_conv_Cons)
    have "case r of
           Inr _ \<Rightarrow> Suc n = length (fn # fns) \<and> await_each c v (fn # fns) w = (Inr (), w')
         | Inl e \<Rightarrow> 0 < Suc n \<and>
             (\<exists>w2. await_each c v (take (Suc n - 1) (fn # fns)) w = (Inr (), w2) \<and>
                   ((fn # fns) ! (Suc n - 1)) c v w2 = (Inl e, w'))"
    proof (cases r)
      case (Inl e)
      with res obtain w2 where "0 < n"
        "await_each c v (take (n - 1) fns) w1 = (Inr (), w2)"
        "(fns ! (n - 1)) c v w2 = (Inl e, w')"
        by auto
      with head Inr Inl show ?thesis
        by (cases n) auto
    next
      case (Inr u')
      with res head \<open>r1 = Inr u\<close> show ?thesis by simp
    qed
    with calls n(1) show ?thesis
      by (intro exI [of _ "Suc n"]) simp
  qed
qed

lemma defer_open:
  "\<not> isDone cs \<Longrightarrow> ChangeSetImpl_defer fn cs = (Inr (), cs\<lparr>commitFns := commitFns cs @ [fn]\<rparr>)"
  by (simp add: ChangeSetImpl_defer_def checkStatus_def)

lemma invoke_all_Defer:
  "\<not> isDone cs \<Longrightarrow>
     invoke_all (map Defer fns) cs w = (cs\<lparr>commitFns := commitFns cs @ fns\<rparr>, w)"
  by (induction fns arbitrary: cs) (simp_all add: defer_open)

text \<open>
  Claim C4. Take an open change set with no commit action yet and register any callbacks
  \<open>fns\<close> with \<^verbatim>\<open>defer\<close>, watched and numbered in registration order. Registration calls
  none of them: the world and the log of calls are as before. Then \<^verbatim>\<open>commit()\<close> calls the
  actions \<open>0, 1, ..., n - 1\<close>, in registration order, each once, each with the set's
  context, the next one only after the one before has completed; and every one of them,
  the first included, finds the set already marked complete when it is called. The set
  is left marked complete whether \<^verbatim>\<open>commit()\<close> returns or throws. If it returns, \<open>n\<close> is
  the number of actions and the world is the one they leave in turn. If it throws \<open>e\<close>,
  action \<open>n - 1\<close> threw \<open>e\<close> after the ones before it returned, and no later-registered
  action was called.
\<close>

theorem commit_runs_actions_in_registration_order:
  fixes fns :: "('c, 'w) CtxCallback list"
  assumes "\<not> isDone cs0" and "commitFns cs0 = []"
  shows "\<exists>cs. invoke_all (map Defer (watches 0 fns)) cs0 (w, []) = (cs, (w, [])) \<and>
           (\<exists>r cs' w' n.
              ChangeSetImpl_commit cs (w, []) =
                (r, cs', (w', map (\<lambda>i. (i, ctx cs0, True)) [0..<n])) \<and>
              isDone cs' \<and> n \<le> length fns \<and>
              (case r of
                 Inr _ \<Rightarrow> n = length fns \<and>
                   await_each (ctx cs0) \<lparr>view_done = True, view_ignoreStatus = ignoreStatus cs0\<rparr>
                     fns w = (Inr (), w')
               | Inl e \<Rightarrow> 0 < n \<and>
                   (\<exists>w1. await_each (ctx cs0)
                           \<lparr>view_done = True, view_ignoreStatus = ignoreStatus cs0\<rparr>
                           (take (n - 1) fns) w = (Inr (), w1) \<and>
                         (fns ! (n - 1)) (ctx cs0)
                           \<lparr>view_done = True, view_ignoreStatus = ignoreStatus cs0\<rparr> w1
                           = (Inl e, w'))))"
proof -
  let ?cs = "cs0\<lparr>commitFns := watches 0 fns\<rparr>"
  let ?seen = "\<lparr>view_done = True, view_ignoreStatus = ignoreStatus cs0\<rparr>"
  have reg: "invoke_all (map Defer (watches 0 fns)) cs0 (w, []) = (?cs, (w, []))"
    using assms by (simp add: invoke_all_Defer)
  obtain r w' calls where
    run: "await_each (ctx cs0) ?seen (watches 0 fns) (w, []) = (r, (w', calls))"
    by (cases "await_each (ctx cs0) ?seen (watches 0 fns) (w, [])") auto
  from await_each_watches [OF run] obtain n where
    n: "n \<le> length fns" "calls = map (\<lambda>i. (i, ctx cs0, True)) [0..<n]"
    and res: "(case r of
           Inr _ \<Rightarrow> n = length fns \<and> await_each (ctx cs0) ?seen fns w = (Inr (), w')
         | Inl e \<Rightarrow> 0 < n \<and>
             (\<exists>w1. await_each (ctx cs0) ?seen (take (n - 1) fns) w = (Inr (), w1) \<and>
                   (fns ! (n - 1)) (ctx cs0) ?seen w1 = (Inl e, w')))"
    by auto
  let ?cs' = "?cs\<lparr>isDone := True, ignoreStatus := \<not> is_ok r\<rparr>"
  have commit: "ChangeSetImpl_commit ?cs (w, []) =
          (r, ?cs', (w', map (\<lambda>i. (i, ctx cs0, True)) [0..<n]))"
    using assms(1) run n(2) by (simp add: commit_open)
  show ?thesis
  proof (intro exI conjI)
    show "invoke_all (map Defer (watches 0 fns)) cs0 (w, []) = (?cs, (w, []))"
      by (rule reg)
    show "ChangeSetImpl_commit ?cs (w, []) =
            (r, ?cs', (w', map (\<lambda>i. (i, ctx cs0, True)) [0..<n]))"
      by (rule commit)
    show "isDone ?cs'" by simp
    show "n \<le> length fns" by (rule n(1))
    show "case r of
           Inr _ \<Rightarrow> n = length fns \<and> await_each (ctx cs0) ?seen fns w = (Inr (), w')
         | Inl e \<Rightarrow> 0 < n \<and>
             (\<exists>w1. await_each (ctx cs0) ?seen (take (n - 1) fns) w = (Inr (), w1) \<and>
                   (fns ! (n - 1)) (ctx cs0) ?seen w1 = (Inl e, w'))"
      by (rule res)
  qed
qed

theorem commit_runs_actions_in_registration_order_witness:
  "\<not> isDone (new_ChangeSetImpl ''ctx''
             :: (string, string list \<times> (nat \<times> string \<times> bool) list) ChangeSetImpl) \<and>
   commitFns (new_ChangeSetImpl ''ctx''
             :: (string, string list \<times> (nat \<times> string \<times> bool) list) ChangeSetImpl) = [] \<and>
   snd (invoke_all (map Defer (watches 0 [push ''a'', push ''b'', throwing on_purpose, push ''c'']))
          (new_ChangeSetImpl ''ctx'') ([], [])) = ([], []) \<and>
   (case ChangeSetImpl_commit
           (fst (invoke_all
                   (map Defer (watches 0 [push ''a'', push ''b'', throwing on_purpose, push ''c'']))
                   (new_ChangeSetImpl ''ctx'') ([], []))) ([], []) of
      (r, cs', w', calls) \<Rightarrow>
        r = Inl on_purpose \<and> isDone cs' \<and> w' = [''a'', ''b''] \<and>
        calls = [(0, ''ctx'', True), (1, ''ctx'', True), (2, ''ctx'', True)])"
proof -
  let ?new = "new_ChangeSetImpl ''ctx''
                :: (string, string list \<times> (nat \<times> string \<times> bool) list) ChangeSetImpl"
  let ?fns = "[push ''a'', push ''b'', throwing on_purpose, push ''c'']"
  have h1: "\<not> isDone ?new" and h2: "commitFns ?new = []"
    by (simp_all add: new_ChangeSetImpl_def)
  have reg: "invoke_all (map Defer (watches 0 ?fns)) ?new ([], [])
               = (?new\<lparr>commitFns := watches 0 ?fns\<rparr>, ([], []))"
    by (subst invoke_all_Defer [OF h1]) (simp add: h2)
  have run: "ChangeSetImpl_commit (?new\<lparr>commitFns := watches 0 ?fns\<rparr>) ([], [])
               = (Inl on_purpose,
                  ?new\<lparr>commitFns := watches 0 ?fns, isDone := True, ignoreStatus := True\<rparr>,
                  ([''a'', ''b''], [(0, ''ctx'', True), (1, ''ctx'', True), (2, ''ctx'', True)]))"
    by (simp add: commit_open watch_apply new_ChangeSetImpl_def push_def throwing_def)
  show ?thesis
    using h1 h2 commit_runs_actions_in_registration_order [OF h1 h2, where fns = ?fns and w = "[]"]
    by (simp only: reg fst_conv snd_conv run) simp
qed

text \<open>
  Claim C2, as stated, fails: \<^verbatim>\<open>rollback()\<close> runs the failure actions in a plain loop, and
  a failure action that throws ends the loop. With the failure actions \<open>failed1\<close>, one
  that throws, and \<open>failed2\<close>, registered in this order on a fresh set, \<^verbatim>\<open>rollback()\<close>
  throws what the second action threw, and \<open>failed2\<close> is never pushed.
\<close>

theorem later_failure_action_skipped:
  "fst (ChangeSetImpl_rollback
          (fst (invoke_all [DeferFail (push ''failed1''), DeferFail (throwing on_purpose),
                           DeferFail (push ''failed2'')] (new_ChangeSetImpl ''ctx'') [])) [])
     = Inl on_purpose \<and>
   snd (snd (ChangeSetImpl_rollback
          (fst (invoke_all [DeferFail (push ''failed1''), DeferFail (throwing on_purpose),
                           DeferFail (push ''failed2'')] (new_ChangeSetImpl ''ctx'') [])) []))
     = [''failed1'']"
  by (simp add: ChangeSetImpl_deferFail_def ChangeSetImpl_rollback_def checkStatus_def
        view_of_def new_ChangeSetImpl_def push_def throwing_def Let_def)

text \<open>
  Claim C2, amended. When \<^verbatim>\<open>rollback()\<close> is permitted (the set is open, or the last
  commit threw), it marks the set complete and calls the failure actions in registration
  order, each with the set's context and each awaited, up to and including the first one
  that throws. If none throws, every failure action is called and \<^verbatim>\<open>rollback()\<close> returns.
  If one throws \<open>e\<close>, \<^verbatim>\<open>rollback()\<close> throws \<open>e\<close> and no later-registered failure action is
  called.
\<close>

theorem rollback_stops_at_first_throwing_failure_action:
  fixes fns :: "('c, 'w) CtxCallback list"
  assumes "\<not> isDone cs \<or> ignoreStatus cs" and "rollbackFns cs = spies 0 fns"
  shows "\<exists>r cs' w' n.
           ChangeSetImpl_rollback cs (w, []) = (r, cs', (w', map (\<lambda>i. (i, ctx cs)) [0..<n])) \<and>
           isDone cs' \<and> n \<le> length fns \<and>
           (case r of
              Inr _ \<Rightarrow> n = length fns \<and>
                await_each (ctx cs) \<lparr>view_done = True, view_ignoreStatus = False\<rparr> fns w
                  = (Inr (), w')
            | Inl e \<Rightarrow> 0 < n \<and>
                (\<exists>w1. await_each (ctx cs) \<lparr>view_done = True, view_ignoreStatus = False\<rparr>
                        (take (n - 1) fns) w = (Inr (), w1) \<and>
                      (fns ! (n - 1)) (ctx cs) \<lparr>view_done = True, view_ignoreStatus = False\<rparr> w1
                        = (Inl e, w')))"
proof -
  let ?closed = "\<lparr>view_done = True, view_ignoreStatus = False\<rparr>"
  obtain r w' calls where
    run: "await_each (ctx cs) ?closed (spies 0 fns) (w, []) = (r, (w', calls))"
    by (cases "await_each (ctx cs) ?closed (spies 0 fns) (w, [])") auto
  from await_each_spies [OF run] obtain n where
    n: "n \<le> length fns" "calls = map (\<lambda>i. (i, ctx cs)) [0..<n]"
    and res: "(case r of
           Inr _ \<Rightarrow> n = length fns \<and> await_each (ctx cs) ?closed fns w = (Inr (), w')
         | Inl e \<Rightarrow> 0 < n \<and>
             (\<exists>w1. await_each (ctx cs) ?closed (take (n - 1) fns) w = (Inr (), w1) \<and>
                   (fns ! (n - 1)) (ctx cs) ?closed w1 = (Inl e, w')))"
    by auto
  have "ChangeSetImpl_rollback cs (w, []) =
          (r, cs\<lparr>ignoreStatus := False, isDone := True\<rparr>, (w', map (\<lambda>i. (i, ctx cs)) [0..<n]))"
    using assms run n(2) by (simp add: rollback_permitted)
  with n(1) res show ?thesis
    by (intro exI [of _ r] exI [of _ "cs\<lparr>ignoreStatus := False, isDone := True\<rparr>"]
              exI [of _ w'] exI [of _ n]) simp
qed

theorem rollback_stops_at_first_throwing_failure_action_witness:
  "isDone spied_failures \<and> ignoreStatus spied_failures \<and>
   rollbackFns spied_failures = spies 0 [push ''failed1'', throwing on_purpose, push ''failed2''] \<and>
   (case ChangeSetImpl_rollback spied_failures ([], []) of
      (r, cs', w', calls) \<Rightarrow>
        r = Inl on_purpose \<and> isDone cs' \<and> w' = [''failed1''] \<and>
        calls = [(0, ''ctx''), (1, ''ctx'')])"
proof -
  have h1: "\<not> isDone spied_failures \<or> ignoreStatus spied_failures"
    and h2: "rollbackFns spied_failures
               = spies 0 [push ''failed1'', throwing on_purpose, push ''failed2'']"
    by (simp_all add: spied_failures_def)
  show ?thesis
    using h2 rollback_stops_at_first_throwing_failure_action [OF h1 h2, where w = "[]"]
    by (simp add: rollback_permitted [OF h1])
       (simp add: spied_failures_def spy_apply push_def throwing_def)
qed

section \<open>The context handed to deferred callbacks\<close>

lemma spy_is_spy: "\<exists>j g. spy i fn = spy j g"
  by blast

lemma await_each_spied:
  "\<forall>f\<in>set fns. \<exists>i g. f = spy i g \<Longrightarrow>
   await_each c v fns (w, calls) = (r, (w', calls')) \<Longrightarrow>
   set calls' \<subseteq> set calls \<union> {p. snd p = c}"
proof (induction fns arbitrary: w calls)
  case Nil
  then show ?case by auto
next
  case (Cons fn fns)
  then obtain i g where fn: "fn = spy i g" by auto
  obtain r1 w1 where g: "g c v w = (r1, w1)" by (cases "g c v w")
  show ?case
  proof (cases r1)
    case (Inl e)
    with Cons.prems(2) fn g show ?thesis by (auto simp: spy_apply)
  next
    case (Inr u)
    with Cons.prems(2) fn g
    have "await_each c v fns (w1, calls @ [(i, c)]) = (r, (w', calls'))"
      by (simp add: spy_apply)
    moreover from Cons.prems(1) have "\<forall>f\<in>set fns. \<exists>i g. f = spy i g"
      by simp
    ultimately have "set calls' \<subseteq> set (calls @ [(i, c)]) \<union> {p. snd p = c}"
      by (rule Cons.IH [rotated])
    then show ?thesis by auto
  qed
qed

lemma invoke_ctx_inv:
  assumes "ctx_inv c0 cs calls" and "invoke (spy_call ic) cs (w, calls) = (r, cs', (w', calls'))"
  shows "ctx_inv c0 cs' calls'"
proof (cases ic)
  case (Pair i call)
  show ?thesis
  proof (cases call)
    case (Defer fn)
    with Pair assms show ?thesis
      by (auto simp: ctx_inv_def ChangeSetImpl_defer_def checkStatus_def spy_is_spy
               split: if_splits)
  next
    case (DeferFail fn)
    with Pair assms show ?thesis
      by (auto simp: ctx_inv_def ChangeSetImpl_deferFail_def checkStatus_def spy_is_spy
               split: if_splits)
  next
    case (Commit arg)
    show ?thesis
    proof (cases "isDone cs")
      case True
      with Pair Commit assms show ?thesis
        by (simp add: ChangeSetImpl_commit_def checkStatus_def)
    next
      case False
      with Pair Commit assms(2)
      have run: "await_each (ctx cs) \<lparr>view_done = True, view_ignoreStatus = ignoreStatus cs\<rparr>
                   (commitFns cs) (w, calls) = (r, (w', calls'))"
        and cs': "cs' = cs\<lparr>isDone := True, ignoreStatus := \<not> is_ok r\<rparr>"
        by (auto simp: ChangeSetImpl_commit_def checkStatus_def view_of_def Let_def
                 split: prod.splits)
      from assms(1) await_each_spied [OF _ run]
      have "set calls' \<subseteq> set calls \<union> {p. snd p = ctx cs}"
        by (simp add: ctx_inv_def)
      moreover from assms(1) have "\<forall>p\<in>set calls. snd p = c0" "ctx cs = c0"
        by (simp_all add: ctx_inv_def)
      ultimately have "\<forall>p\<in>set calls'. snd p = c0"
        by auto
      with assms(1) cs' show ?thesis
        by (simp add: ctx_inv_def)
    qed
  next
    case (Rollback arg)
    show ?thesis
    proof (cases "isDone cs \<and> \<not> ignoreStatus cs")
      case True
      with Pair Rollback assms show ?thesis
        by (auto simp add: ChangeSetImpl_rollback_def checkStatus_def)
    next
      case False
      with Pair Rollback assms(2)
      have run: "await_each (ctx cs) \<lparr>view_done = True, view_ignoreStatus = False\<rparr>
                   (rollbackFns cs) (w, calls) = (r, (w', calls'))"
        and cs': "cs' = cs\<lparr>ignoreStatus := False, isDone := True\<rparr>"
        by (auto simp: ChangeSetImpl_rollback_def checkStatus_def view_of_def Let_def
                 split: prod.splits if_splits)
      from assms(1) await_each_spied [OF _ run]
      have "set calls' \<subseteq> set calls \<union> {p. snd p = ctx cs}"
        by (simp add: ctx_inv_def)
      moreover from assms(1) have "\<forall>p\<in>set calls. snd p = c0" "ctx cs = c0"
        by (simp_all add: ctx_inv_def)
      ultimately have "\<forall>p\<in>set calls'. snd p = c0"
        by auto
      with assms(1) cs' show ?thesis
        by (simp add: ctx_inv_def)
    qed
  qed
qed

lemma invoke_all_ctx_inv:
  "ctx_inv c0 cs calls \<Longrightarrow>
   invoke_all (map spy_call ics) cs (w, calls) = (cs', (w', calls')) \<Longrightarrow>
   ctx_inv c0 cs' calls'"
proof (induction ics arbitrary: cs w calls)
  case Nil
  then show ?case by simp
next
  case (Cons ic ics)
  obtain r cs1 w1 calls1 where
    step: "invoke (spy_call ic) cs (w, calls) = (r, cs1, (w1, calls1))"
    by (cases "invoke (spy_call ic) cs (w, calls)") auto
  from Cons.prems(1) step have "ctx_inv c0 cs1 calls1"
    by (rule invoke_ctx_inv)
  moreover from Cons.prems(2) step
  have "invoke_all (map spy_call ics) cs1 (w1, calls1) = (cs', (w', calls'))"
    by simp
  ultimately show ?case by (rule Cons.IH)
qed

text \<open>
  Claim C10. Let \<^verbatim>\<open>csBuilder.beginTxn\<close> create a change set with the context \<open>c0\<close>, and let
  a client make any sequence of calls on it: registrations of any callbacks with
  \<^verbatim>\<open>defer\<close> and \<^verbatim>\<open>deferFail\<close>, and calls of \<^verbatim>\<open>commit\<close> and \<^verbatim>\<open>rollback\<close>, with or without a
  context passed at the call. With every registered callback spied, every call a callback
  receives in the whole run is made with \<open>c0\<close>. \<^verbatim>\<open>ChangeSetImpl.commit\<close> and
  \<^verbatim>\<open>ChangeSetImpl.rollback\<close> declare no parameter, so in the model neither takes a context:
  the one a caller passes stops at \<open>invoke\<close>.
\<close>

theorem callbacks_receive_creation_context:
  assumes "csBuilder_beginTxn c0 (w, []) = (Inr cs0, wl)"
      and "invoke_all (map spy_call ics) cs0 wl = (cs, (w', calls))"
  shows "\<forall>(i, c) \<in> set calls. c = c0"
proof -
  from assms(1) have cs0: "cs0 = new_ChangeSetImpl c0" and wl: "wl = (w, [])"
    by (simp_all add: csBuilder_beginTxn_def)
  have "ctx_inv c0 cs0 []"
    by (simp add: cs0 ctx_inv_def new_ChangeSetImpl_def)
  with assms(2) wl have "ctx_inv c0 cs calls"
    by (auto intro: invoke_all_ctx_inv)
  then show ?thesis
    by (auto simp: ctx_inv_def)
qed

theorem callbacks_receive_creation_context_witness:
  "csBuilder_beginTxn ''ctx'' ([], []) =
     (Inr (new_ChangeSetImpl ''ctx''), ([] :: string list, [] :: (nat \<times> string) list)) \<and>
   snd (invoke_all
          (map spy_call
             [(0, Defer (push ''a'')), (1, DeferFail (push ''undo'')),
              (2, Defer (throwing on_purpose)), (3, Commit (Some ''later'')),
              (4, Rollback (Some ''later''))])
          (new_ChangeSetImpl ''ctx'') ([], []))
     = ([''a'', ''undo''], [(0, ''ctx''), (2, ''ctx''), (1, ''ctx'')])"
proof -
  let ?ics = "[(0, Defer (push ''a'')), (1, DeferFail (push ''undo'')),
               (2, Defer (throwing on_purpose)), (3, Commit (Some ''later'')),
               (4, Rollback (Some ''later''))]"
  let ?new = "new_ChangeSetImpl ''ctx'' :: (string, string list \<times> (nat \<times> string) list) ChangeSetImpl"
  have h1: "csBuilder_beginTxn ''ctx'' ([], []) = (Inr ?new, ([], []))"
    by (simp add: csBuilder_beginTxn_def)
  have run: "snd (invoke_all (map spy_call ?ics) ?new ([], []))
               = ([''a'', ''undo''], [(0, ''ctx''), (2, ''ctx''), (1, ''ctx'')])"
    by (simp add: ChangeSetImpl_defer_def ChangeSetImpl_deferFail_def ChangeSetImpl_commit_def
          ChangeSetImpl_rollback_def checkStatus_def view_of_def new_ChangeSetImpl_def spy_apply
          push_def throwing_def Let_def)
  then obtain cs where
    h2: "invoke_all (map spy_call ?ics) ?new ([], [])
           = (cs, ([''a'', ''undo''], [(0, ''ctx''), (2, ''ctx''), (1, ''ctx'')]))"
    by (metis prod.collapse)
  from callbacks_receive_creation_context [OF h1 h2]
  have "\<forall>(i, c) \<in> set [(0, ''ctx''), (2, ''ctx''), (1::nat, ''ctx'')]. c = ''ctx''" .
  with h1 run show ?thesis
    by (intro conjI) assumption+
qed

section \<open>The transaction runner\<close>

text \<open>
  Once \<^verbatim>\<open>run\<close> has a source, a callback and no objection to the context's transaction,
  and \<^verbatim>\<open>beginTxn\<close> has returned \<open>txn\<close>, what is left is the \<^verbatim>\<open>try\<close>/\<^verbatim>\<open>catch\<close>.
\<close>

lemma run_after_begin:
  assumes "getTransactable acc c = Some txnSrc0"
      and "resolve_args fnOrOpts maybeFn = (Some fn, opts)"
      and "(case getTxn acc c of None \<Rightarrow> Some txnSrc0
            | Some existingTxn \<Rightarrow> beginTxn_member existingTxn) = Some txnSrc"
      and "txnSrc c opts w = (Inr txn, w1)"
  shows "TxnRunnerImpl_run acc c fnOrOpts maybeFn w =
           (case (case fn (withTxn acc c txn) txn w1 of
                    (Inl e, w2) \<Rightarrow> (Inl e, w2)
                  | (Inr _, w2) \<Rightarrow> commit txn w2) of
              (Inr _, w3) \<Rightarrow> (Inr (), w3)
            | (Inl e, w3) \<Rightarrow>
                (case rollback txn w3 of
                   (Inl e', w4) \<Rightarrow> (Inl e', w4)
                 | (Inr _, w4) \<Rightarrow> (Inl (TransactionFailed e), w4)))"
  using assms
  by (auto simp: TxnRunnerImpl_run_def Let_def split: option.splits)

text \<open>
  Claim C5, as stated, fails for a run whose rollback throws: the callback throws, the
  transaction cannot roll back, and \<^verbatim>\<open>run\<close> fails with the rollback's error, which is not
  the failure error built from what the callback threw.
\<close>

theorem failed_rollback_hides_TransactionFailed:
  "fst (TxnRunnerImpl_run (accessor_for stuck_txn) ''fresh''
          (ArgFn (txn_throwing on_purpose)) None []) = Inl rollback_failed \<and>
   rollback_failed \<noteq> TransactionFailed on_purpose"
  by (simp add: TxnRunnerImpl_run_def resolve_args_def accessor_for_def stuck_txn_def
        txn_throwing_def rollback_failed_def TransactionFailed_def new_Error_def
        new_Error_cause_def)

text \<open>
  Claim C5, amended. Let a call of \<^verbatim>\<open>run\<close> get as far as its callback: a source is
  resolved, a callback is supplied, the context carries no transaction or a nestable
  one, and \<^verbatim>\<open>beginTxn\<close> returns \<open>txn\<close>. If the callback throws \<open>e\<close>, or returns and the
  commit of \<open>txn\<close> throws \<open>e\<close>, and the rollback of \<open>txn\<close> then returns, \<^verbatim>\<open>run\<close> fails, in
  the world the rollback left, with the failure error for \<open>e\<close>: when \<open>e\<close> is an error
  object, the message is \<^verbatim>\<open>Transaction failed: \<close> followed by the string form of \<open>e\<close> and
  the cause is \<open>e\<close>; when \<open>e\<close> is any other value that is not \<^verbatim>\<open>null\<close> or
  \<^verbatim>\<open>undefined\<close>, the message is the same and there is no cause; when \<open>e\<close> is \<^verbatim>\<open>null\<close> or
  \<^verbatim>\<open>undefined\<close>, the message is \<^verbatim>\<open>Transaction failed\<close> alone and there is no cause.
\<close>

theorem failed_run_wraps_cause_after_rollback:
  assumes "getTransactable acc c = Some txnSrc0"
      and "resolve_args fnOrOpts maybeFn = (Some fn, opts)"
      and "(case getTxn acc c of None \<Rightarrow> Some txnSrc0
            | Some existingTxn \<Rightarrow> beginTxn_member existingTxn) = Some txnSrc"
      and "txnSrc c opts w = (Inr txn, w1)"
      and "fn (withTxn acc c txn) txn w1 = (Inl e, w3) \<or>
           (\<exists>w2. fn (withTxn acc c txn) txn w1 = (Inr (), w2) \<and> commit txn w2 = (Inl e, w3))"
      and "rollback txn w3 = (Inr (), w4)"
  shows "TxnRunnerImpl_run acc c fnOrOpts maybeFn w = (Inl (TransactionFailed e), w4) \<and>
         (instanceof_Error e \<longrightarrow>
            TransactionFailed e = JError ''Error'' (''Transaction failed: '' @ String_js e) e) \<and>
         (not_nullish e \<and> \<not> instanceof_Error e \<longrightarrow>
            TransactionFailed e =
              JError ''Error'' (''Transaction failed: '' @ String_js e) JUndefined) \<and>
         (\<not> not_nullish e \<longrightarrow>
            TransactionFailed e = JError ''Error'' ''Transaction failed'' JUndefined)"
proof -
  have "TxnRunnerImpl_run acc c fnOrOpts maybeFn w = (Inl (TransactionFailed e), w4)"
    using assms(5,6) by (auto simp: run_after_begin [OF assms(1-4)])
  moreover have "instanceof_Error e \<longrightarrow>
      TransactionFailed e = JError ''Error'' (''Transaction failed: '' @ String_js e) e"
    by (cases e) (simp_all add: TransactionFailed_def errSuffix_def new_Error_cause_def)
  moreover have "not_nullish e \<and> \<not> instanceof_Error e \<longrightarrow>
      TransactionFailed e = JError ''Error'' (''Transaction failed: '' @ String_js e) JUndefined"
    by (cases e) (simp_all add: TransactionFailed_def errSuffix_def new_Error_cause_def)
  moreover have "\<not> not_nullish e \<longrightarrow>
      TransactionFailed e = JError ''Error'' ''Transaction failed'' JUndefined"
    by (cases e) (simp_all add: TransactionFailed_def errSuffix_def new_Error_cause_def)
  ultimately show ?thesis by blast
qed

theorem failed_run_wraps_cause_after_rollback_witness:
  "TxnRunnerImpl_run stack_accessor ''fresh'' (ArgFn (txn_throwing on_purpose)) None []
     = (Inl (JError ''Error'' ''Transaction failed: Error: Rolling back on purpose'' on_purpose),
        [''begin'', ''rollback plain'']) \<and>
   TxnRunnerImpl_run (accessor_for fragile_txn) ''fresh'' (ArgFn note_call) None []
     = (Inl (JError ''Error'' ''Transaction failed: disk full'' JUndefined),
        [''begin'', ''in fragile'', ''fragile'', ''commit fragile'', ''rollback fragile'']) \<and>
   TxnRunnerImpl_run stack_accessor ''fresh''
       (ArgOpts \<lparr>isolationLevel = Some serializable, readOnly = None\<rparr>)
       (Some (txn_throwing JUndefined)) []
     = (Inl (JError ''Error'' ''Transaction failed'' JUndefined), [''begin'', ''rollback plain''])"
proof -
  have thrown_error:
    "TxnRunnerImpl_run stack_accessor ''fresh'' (ArgFn (txn_throwing on_purpose)) None []
       = (Inl (JError ''Error'' ''Transaction failed: Error: Rolling back on purpose'' on_purpose),
          [''begin'', ''rollback plain''])"
    using failed_run_wraps_cause_after_rollback
      [where acc = stack_accessor and c = "''fresh''"
         and fnOrOpts = "ArgFn (txn_throwing on_purpose)" and maybeFn = None
         and fn = "txn_throwing on_purpose" and opts = None
         and txnSrc0 = pool_beginTxn and txnSrc = pool_beginTxn and txn = plain_txn
         and w = "[]" and ?w1.0 = "[''begin'']" and e = on_purpose
         and ?w3.0 = "[''begin'']" and ?w4.0 = "[''begin'', ''rollback plain'']"]
    by (simp add: stack_accessor_def resolve_args_def pool_beginTxn_def plain_txn_def
          txn_throwing_def on_purpose_def new_Error_def)
  have thrown_string:
    "TxnRunnerImpl_run (accessor_for fragile_txn) ''fresh'' (ArgFn note_call) None []
       = (Inl (JError ''Error'' ''Transaction failed: disk full'' JUndefined),
          [''begin'', ''in fragile'', ''fragile'', ''commit fragile'', ''rollback fragile''])"
    using failed_run_wraps_cause_after_rollback
      [where acc = "accessor_for fragile_txn" and c = "''fresh''"
         and fnOrOpts = "ArgFn note_call" and maybeFn = None
         and fn = note_call and opts = None
         and txnSrc0 = "\<lambda>c opts w. (Inr fragile_txn, w @ [''begin''])"
         and txnSrc = "\<lambda>c opts w. (Inr fragile_txn, w @ [''begin''])" and txn = fragile_txn
         and w = "[]" and ?w1.0 = "[''begin'']" and e = "JStr ''disk full''"
         and ?w3.0 = "[''begin'', ''in fragile'', ''fragile'', ''commit fragile'']"
         and ?w4.0 = "[''begin'', ''in fragile'', ''fragile'', ''commit fragile'',
                       ''rollback fragile'']"]
    by (simp add: accessor_for_def resolve_args_def fragile_txn_def note_call_def)
  have thrown_undefined:
    "TxnRunnerImpl_run stack_accessor ''fresh''
         (ArgOpts \<lparr>isolationLevel = Some serializable, readOnly = None\<rparr>)
         (Some (txn_throwing JUndefined)) []
       = (Inl (JError ''Error'' ''Transaction failed'' JUndefined), [''begin'', ''rollback plain''])"
    using failed_run_wraps_cause_after_rollback
      [where acc = stack_accessor and c = "''fresh''"
         and fnOrOpts = "ArgOpts \<lparr>isolationLevel = Some serializable, readOnly = None\<rparr>"
         and maybeFn = "Some (txn_throwing JUndefined)"
         and fn = "txn_throwing JUndefined"
         and opts = "Some \<lparr>isolationLevel = Some serializable, readOnly = None\<rparr>"
         and txnSrc0 = pool_beginTxn and txnSrc = pool_beginTxn and txn = plain_txn
         and w = "[]" and ?w1.0 = "[''begin'']" and e = JUndefined
         and ?w3.0 = "[''begin'']" and ?w4.0 = "[''begin'', ''rollback plain'']"]
    by (simp add: stack_accessor_def resolve_args_def pool_beginTxn_def plain_txn_def
          txn_throwing_def)
  from thrown_error thrown_string thrown_undefined show ?thesis
    by (intro conjI) assumption+
qed

text \<open>
  Claim C9. Let a call of \<^verbatim>\<open>run\<close> get as far as its callback, and let the callback throw
  \<open>e\<close>, or return and the commit throw \<open>e\<close>, leaving the world \<open>w3\<close>. The rollback runs
  first, from \<open>w3\<close>. If it throws \<open>e'\<close>, \<^verbatim>\<open>run\<close> fails with \<open>e'\<close> itself, whatever \<open>e\<close> was:
  no failure error is built and \<open>e\<close> is reported nowhere. Only if it returns does \<^verbatim>\<open>run\<close>
  fail with the failure error for \<open>e\<close>; either way the world is the one the rollback
  left.
\<close>

theorem failed_rollback_replaces_failure:
  assumes "getTransactable acc c = Some txnSrc0"
      and "resolve_args fnOrOpts maybeFn = (Some fn, opts)"
      and "(case getTxn acc c of None \<Rightarrow> Some txnSrc0
            | Some existingTxn \<Rightarrow> beginTxn_member existingTxn) = Some txnSrc"
      and "txnSrc c opts w = (Inr txn, w1)"
      and "fn (withTxn acc c txn) txn w1 = (Inl e, w3) \<or>
           (\<exists>w2. fn (withTxn acc c txn) txn w1 = (Inr (), w2) \<and> commit txn w2 = (Inl e, w3))"
  shows "(case rollback txn w3 of
            (Inl e', w4) \<Rightarrow> TxnRunnerImpl_run acc c fnOrOpts maybeFn w = (Inl e', w4)
          | (Inr _, w4) \<Rightarrow>
              TxnRunnerImpl_run acc c fnOrOpts maybeFn w = (Inl (TransactionFailed e), w4))"
  using assms(5)
  by (auto simp: run_after_begin [OF assms(1-4)] split: prod.splits sum.splits)

theorem failed_rollback_replaces_failure_witness:
  "TxnRunnerImpl_run (accessor_for broken_txn) ''fresh'' (ArgFn note_call) None []
     = (Inl rollback_failed,
        [''begin'', ''in broken'', ''broken'', ''commit broken'', ''rollback broken''])"
  using failed_rollback_replaces_failure
    [where acc = "accessor_for broken_txn" and c = "''fresh''"
       and fnOrOpts = "ArgFn note_call" and maybeFn = None
       and fn = note_call and opts = None
       and txnSrc0 = "\<lambda>c opts w. (Inr broken_txn, w @ [''begin''])"
       and txnSrc = "\<lambda>c opts w. (Inr broken_txn, w @ [''begin''])" and txn = broken_txn
       and w = "[]" and ?w1.0 = "[''begin'']" and e = commit_failed
       and ?w3.0 = "[''begin'', ''in broken'', ''broken'', ''commit broken'']"]
  by (simp add: accessor_for_def resolve_args_def broken_txn_def note_call_def)

text \<open>
  Claim C6, as stated, fails where two of its conditions meet, because \<^verbatim>\<open>run\<close> makes its
  checks one after the other and the first that fails decides. With no source and no
  callback the error is the configuration error, not the missing-callback error; with a
  transaction on the context that cannot nest and no callback, it is the
  missing-callback error, not the nested-transaction error.
\<close>

theorem earlier_check_wins:
  "fst (TxnRunnerImpl_run stack_accessor ''bare'' ArgUndefined None []) = Inl ConfigurationError \<and>
   ConfigurationError \<noteq> MissingCallbackError \<and>
   fst (TxnRunnerImpl_run stack_accessor ''in plain'' ArgUndefined None [])
     = Inl MissingCallbackError \<and>
   MissingCallbackError \<noteq> NestedTransactionError"
  by (simp add: TxnRunnerImpl_run_def resolve_args_def stack_accessor_def
        ConfigurationError_def MissingCallbackError_def NestedTransactionError_def
        new_Error_def)

text \<open>
  Claim C6, amended. \<^verbatim>\<open>run\<close> checks, in this order, the source, the callback and the
  transaction already on the context. If the accessor resolves no source, it fails with
  the configuration error. Otherwise, if no callback is supplied, it fails with the
  missing-callback error. Otherwise, if the context carries a transaction without the
  \<^verbatim>\<open>beginTxn\<close> member, it fails with the nested-transaction error. In all three cases the
  world is untouched: no transaction is opened. Otherwise, if the context carries a
  transaction with that member, the run is the run that has this member as its source
  and no transaction on the context: the new transaction is opened by the existing one.
\<close>

theorem run_checks_in_order:
  "(getTransactable acc c = None \<longrightarrow>
      TxnRunnerImpl_run acc c fnOrOpts maybeFn w = (Inl ConfigurationError, w)) \<and>
   (getTransactable acc c \<noteq> None \<and> fst (resolve_args fnOrOpts maybeFn) = None \<longrightarrow>
      TxnRunnerImpl_run acc c fnOrOpts maybeFn w = (Inl MissingCallbackError, w)) \<and>
   (getTransactable acc c \<noteq> None \<and> fst (resolve_args fnOrOpts maybeFn) \<noteq> None \<and>
    (\<exists>t. getTxn acc c = Some t \<and> \<not> isTransactable t) \<longrightarrow>
      TxnRunnerImpl_run acc c fnOrOpts maybeFn w = (Inl NestedTransactionError, w)) \<and>
   (\<forall>t nested. getTransactable acc c \<noteq> None \<and> fst (resolve_args fnOrOpts maybeFn) \<noteq> None \<and>
      getTxn acc c = Some t \<and> beginTxn_member t = Some nested \<longrightarrow>
      TxnRunnerImpl_run acc c fnOrOpts maybeFn w =
        TxnRunnerImpl_run (acc\<lparr>getTransactable := \<lambda>_. Some nested, getTxn := \<lambda>_. None\<rparr>)
          c fnOrOpts maybeFn w)"
  by (auto simp: TxnRunnerImpl_run_def isTransactable_def Let_def
           split: option.splits prod.splits sum.splits)

theorem run_checks_in_order_witness:
  "TxnRunnerImpl_run stack_accessor ''bare'' (ArgFn note_call) None []
     = (Inl ConfigurationError, []) \<and>
   TxnRunnerImpl_run stack_accessor ''fresh''
       (ArgOpts \<lparr>isolationLevel = None, readOnly = Some True\<rparr>) None []
     = (Inl MissingCallbackError, []) \<and>
   TxnRunnerImpl_run stack_accessor ''in plain'' (ArgFn note_call) None []
     = (Inl NestedTransactionError, []) \<and>
   TxnRunnerImpl_run stack_accessor ''in nestable'' (ArgFn note_call) None []
     = (Inr (), [''begin nested'', ''in plain'', ''plain'', ''commit plain''])"
proof -
  have no_source:
    "TxnRunnerImpl_run stack_accessor ''bare'' (ArgFn note_call) None []
       = (Inl ConfigurationError, [])"
    using run_checks_in_order
      [where acc = stack_accessor and c = "''bare''" and fnOrOpts = "ArgFn note_call"
         and maybeFn = None and w = "[]"]
    by (simp add: stack_accessor_def)
  have no_callback:
    "TxnRunnerImpl_run stack_accessor ''fresh''
         (ArgOpts \<lparr>isolationLevel = None, readOnly = Some True\<rparr>) None []
       = (Inl MissingCallbackError, [])"
    using run_checks_in_order
      [where acc = stack_accessor and c = "''fresh''"
         and fnOrOpts = "ArgOpts \<lparr>isolationLevel = None, readOnly = Some True\<rparr>"
         and maybeFn = None and w = "[]"]
    by (simp add: stack_accessor_def resolve_args_def)
  have not_nestable:
    "TxnRunnerImpl_run stack_accessor ''in plain'' (ArgFn note_call) None []
       = (Inl NestedTransactionError, [])"
    using run_checks_in_order
      [where acc = stack_accessor and c = "''in plain''" and fnOrOpts = "ArgFn note_call"
         and maybeFn = None and w = "[]"]
    by (simp add: stack_accessor_def resolve_args_def isTransactable_def plain_txn_def)
  have "TxnRunnerImpl_run stack_accessor ''in nestable'' (ArgFn note_call) None []
          = TxnRunnerImpl_run
              (stack_accessor\<lparr>getTransactable := \<lambda>_. Some nested_beginTxn, getTxn := \<lambda>_. None\<rparr>)
              ''in nestable'' (ArgFn note_call) None []"
    using run_checks_in_order
      [where acc = stack_accessor and c = "''in nestable''" and fnOrOpts = "ArgFn note_call"
         and maybeFn = None and w = "[]"]
    by (simp add: stack_accessor_def resolve_args_def nestable_txn_def)
  also have "\<dots> = (Inr (), [''begin nested'', ''in plain'', ''plain'', ''commit plain''])"
    by (simp add: TxnRunnerImpl_run_def resolve_args_def stack_accessor_def
          nested_beginTxn_def plain_txn_def note_call_def)
  finally have nestable:
    "TxnRunnerImpl_run stack_accessor ''in nestable'' (ArgFn note_call) None []
       = (Inr (), [''begin nested'', ''in plain'', ''plain'', ''commit plain''])" .
  from no_source no_callback not_nestable nestable show ?thesis
    by (intro conjI) assumption+
qed

text \<open>
  Claim C7. When the context carries a transaction \<open>t\<close>, \<^verbatim>\<open>in\<close> is the call of the
  callback with the very context and the very transaction it was given: its completion
  and its effect on the world are the callback's, whatever the source, the commit and the
  rollback would do, so no transaction is opened and none is committed or rolled back.
  (With no callback to call, the call itself is a type error and the world is untouched.)
  When the context carries no transaction, \<^verbatim>\<open>in\<close> is \<^verbatim>\<open>run\<close> on the same arguments, with
  options or without.
\<close>

theorem in_joins_or_runs:
  "(\<forall>t fn. getTxn acc c = Some t \<and> fst (resolve_args fnOrOpts maybeFn) = Some fn \<longrightarrow>
      TxnRunnerImpl_in acc c fnOrOpts maybeFn w = fn c t w) \<and>
   (getTxn acc c \<noteq> None \<and> fst (resolve_args fnOrOpts maybeFn) = None \<longrightarrow>
      TxnRunnerImpl_in acc c fnOrOpts maybeFn w = (Inl not_a_function, w)) \<and>
   (getTxn acc c = None \<longrightarrow>
      TxnRunnerImpl_in acc c fnOrOpts maybeFn w = TxnRunnerImpl_run acc c fnOrOpts maybeFn w)"
proof -
  have args: "resolve_args (as_argument fn_opt) None = (fn_opt, None)"
             "resolve_args (ArgOpts given) fn_opt = (fn_opt, Some given)"
    for fn_opt :: "('a, 'b, 'c) TxnCallback option" and given
    by (simp_all add: resolve_args_def as_argument_def split: option.splits)
  obtain fn_opt opts where r: "resolve_args fnOrOpts maybeFn = (fn_opt, opts)"
    by (cases "resolve_args fnOrOpts maybeFn")
  have same: "TxnRunnerImpl_run acc c a1 m1 w = TxnRunnerImpl_run acc c a2 m2 w"
    if "resolve_args a1 m1 = resolve_args a2 m2" for a1 m1 a2 m2
    using that by (simp add: TxnRunnerImpl_run_def)
  have "getTxn acc c = None \<longrightarrow>
      TxnRunnerImpl_in acc c fnOrOpts maybeFn w = TxnRunnerImpl_run acc c fnOrOpts maybeFn w"
  proof (cases opts)
    case None
    with r show ?thesis
      by (auto simp: TxnRunnerImpl_in_def intro!: same simp: args)
  next
    case (Some given)
    with r show ?thesis
      by (auto simp: TxnRunnerImpl_in_def intro!: same simp: args)
  qed
  moreover have "\<forall>t fn. getTxn acc c = Some t \<and> fst (resolve_args fnOrOpts maybeFn) = Some fn \<longrightarrow>
      TxnRunnerImpl_in acc c fnOrOpts maybeFn w = fn c t w"
    by (auto simp: TxnRunnerImpl_in_def split: prod.splits)
  moreover have "getTxn acc c \<noteq> None \<and> fst (resolve_args fnOrOpts maybeFn) = None \<longrightarrow>
      TxnRunnerImpl_in acc c fnOrOpts maybeFn w = (Inl not_a_function, w)"
    by (auto simp: TxnRunnerImpl_in_def split: prod.splits)
  ultimately show ?thesis by blast
qed

theorem in_joins_or_runs_witness:
  "TxnRunnerImpl_in stack_accessor ''in plain'' (ArgFn note_call) None []
     = (Inr (), [''in plain'', ''plain'']) \<and>
   TxnRunnerImpl_in stack_accessor ''in plain'' ArgUndefined None [] = (Inl not_a_function, []) \<and>
   TxnRunnerImpl_in stack_accessor ''fresh''
       (ArgOpts \<lparr>isolationLevel = Some snapshot, readOnly = None\<rparr>) (Some note_call) []
     = (Inr (), [''begin'', ''in plain'', ''plain'', ''commit plain''])"
proof -
  have joined:
    "TxnRunnerImpl_in stack_accessor ''in plain'' (ArgFn note_call) None []
       = (Inr (), [''in plain'', ''plain''])"
    using in_joins_or_runs
      [where acc = stack_accessor and c = "''in plain''" and fnOrOpts = "ArgFn note_call"
         and maybeFn = None and w = "[]"]
    by (simp add: stack_accessor_def resolve_args_def note_call_def plain_txn_def)
  have no_callback:
    "TxnRunnerImpl_in stack_accessor ''in plain'' ArgUndefined None [] = (Inl not_a_function, [])"
    using in_joins_or_runs
      [where acc = stack_accessor and c = "''in plain''" and fnOrOpts = ArgUndefined
         and maybeFn = None and w = "[]"]
    by (simp add: stack_accessor_def resolve_args_def)
  have "TxnRunnerImpl_in stack_accessor ''fresh''
          (ArgOpts \<lparr>isolationLevel = Some snapshot, readOnly = None\<rparr>) (Some note_call) []
        = TxnRunnerImpl_run stack_accessor ''fresh''
          (ArgOpts \<lparr>isolationLevel = Some snapshot, readOnly = None\<rparr>) (Some note_call) []"
    using in_joins_or_runs
      [where acc = stack_accessor and c = "''fresh''"
         and fnOrOpts = "ArgOpts \<lparr>isolationLevel = Some snapshot, readOnly = None\<rparr>"
         and maybeFn = "Some note_call" and w = "[]"]
    by (simp add: stack_accessor_def)
  also have "\<dots> = (Inr (), [''begin'', ''in plain'', ''plain'', ''commit plain''])"
    by (simp add: TxnRunnerImpl_run_def resolve_args_def stack_accessor_def
          pool_beginTxn_def plain_txn_def note_call_def)
  finally have ran:
    "TxnRunnerImpl_in stack_accessor ''fresh''
         (ArgOpts \<lparr>isolationLevel = Some snapshot, readOnly = None\<rparr>) (Some note_call) []
       = (Inr (), [''begin'', ''in plain'', ''plain'', ''commit plain''])" .
  from joined no_callback ran show ?thesis
    by (intro conjI) assumption+
qed

section \<open>The transaction change set\<close>

text \<open>
  The subclass's \<^verbatim>\<open>commit()\<close> leaves the flags as the base class's does, whichever of its
  two phases throws, so what the guard does after it is the same.
\<close>

lemma TxnChangeSetImpl_commit_flags:
  assumes "\<not> isDone cs" and "TxnChangeSetImpl_commit cs w = (r, cs1, w1)"
  shows "isDone cs1 \<and> ignoreStatus cs1 = (\<not> is_ok r) \<and> ctx cs1 = ctx cs \<and>
         rollbackFns cs1 = rollbackFns cs"
  using assms
  by (auto simp: TxnChangeSetImpl_commit_def checkStatus_def view_of_def Let_def
           split: sum.splits prod.splits if_splits)

text \<open>
  Claim C8. On a transaction change set with no transactional action, \<^verbatim>\<open>commit()\<close> is the
  \<^verbatim>\<open>commit()\<close> of the base class: the guard, the mark and the commit actions, nothing
  else. The runner the set holds plays no part: with any other runner in its place the
  completion, the flags and the world come out the same, so the runner is not run and
  no source is asked to begin a transaction.
\<close>

theorem no_txn_callbacks_no_transaction:
  assumes "commitTxn cs = []"
  shows "TxnChangeSetImpl_commit cs w = ChangeSetImpl_commit cs w \<and>
         (\<forall>other. TxnChangeSetImpl_commit (cs\<lparr>txnRunner := other\<rparr>) w =
            (case TxnChangeSetImpl_commit cs w of
               (r, cs', w') \<Rightarrow> (r, cs'\<lparr>txnRunner := other\<rparr>, w')))"
  using assms
  by (simp add: TxnChangeSetImpl_commit_def ChangeSetImpl_commit_def checkStatus_def view_of_def
           Let_def split: sum.splits prod.splits)

theorem no_txn_callbacks_no_transaction_witness:
  "commitTxn only_plain_actions = [] \<and>
   fst (TxnChangeSetImpl_commit only_plain_actions [''a'', ''b'']) = Inr () \<and>
   snd (snd (TxnChangeSetImpl_commit only_plain_actions [''a'', ''b'']))
     = [''a'', ''b'', ''c'', ''Pushed c!'']"
proof -
  have h: "commitTxn only_plain_actions = []"
    by (simp add: only_plain_actions_def new_TxnChangeSetImpl_def)
  have base: "ChangeSetImpl_commit only_plain_actions [''a'', ''b'']
                = (Inr (), only_plain_actions\<lparr>isDone := True, ignoreStatus := False\<rparr>,
                   [''a'', ''b'', ''c'', ''Pushed c!''])"
    by (simp add: commit_open only_plain_actions_def new_TxnChangeSetImpl_def push_def)
  from no_txn_callbacks_no_transaction [OF h, where w = "[''a'', ''b'']"]
  have "TxnChangeSetImpl_commit only_plain_actions [''a'', ''b'']
          = ChangeSetImpl_commit only_plain_actions [''a'', ''b'']"
    by (rule conjunct1)
  with h base show ?thesis
    by simp
qed

text \<open>
  The empty list matters: with one transactional action registered on the same set, the
  runner is run, the trapped source is asked to begin a transaction and throws, and the
  commit actions are not reached.
\<close>

lemma txn_callback_opens_transaction:
  "fst (TxnChangeSetImpl_commit
          (snd (TxnChangeSetImpl_deferTxn (txn_push ''t'') only_plain_actions)) [''a'', ''b''])
     = Inl no_transactions \<and>
   snd (snd (TxnChangeSetImpl_commit
          (snd (TxnChangeSetImpl_deferTxn (txn_push ''t'') only_plain_actions)) [''a'', ''b'']))
     = [''a'', ''b'', ''begin'']"
  by (simp add: TxnChangeSetImpl_commit_def TxnChangeSetImpl_deferTxn_def checkStatus_def
        only_plain_actions_def new_TxnChangeSetImpl_def new_TxnRunnerImpl_def
        TxnRunnerImpl_run_def resolve_args_def trapped_accessor_def Let_def)

text \<open>
  Claim C3 does not hold of the code: \<^verbatim>\<open>deferTxn\<close> pushes the callback without calling
  \<^verbatim>\<open>checkStatus\<close>, which \<^verbatim>\<open>defer\<close> and \<^verbatim>\<open>deferFail\<close> both call first. On a transaction change
  set whose \<^verbatim>\<open>commit()\<close> has completed, \<^verbatim>\<open>defer\<close> and \<^verbatim>\<open>deferFail\<close> throw the
  already-completed error, and \<^verbatim>\<open>deferTxn\<close> returns and lengthens a list that no later
  call will run.
\<close>

theorem deferTxn_accepted_after_completion:
  "isDone completed_txn_set \<and>
   fst (ChangeSetImpl_defer (push ''late'') completed_txn_set) = Inl AlreadyCompletedError \<and>
   fst (ChangeSetImpl_deferFail (push ''late'') completed_txn_set) = Inl AlreadyCompletedError \<and>
   fst (TxnChangeSetImpl_deferTxn (txn_push ''late'') completed_txn_set) = Inr () \<and>
   length (commitTxn (snd (TxnChangeSetImpl_deferTxn (txn_push ''late'') completed_txn_set))) = 1 \<and>
   fst (TxnChangeSetImpl_commit
          (snd (TxnChangeSetImpl_deferTxn (txn_push ''late'') completed_txn_set)) [])
     = Inl AlreadyCompletedError"
  by (simp add: completed_txn_set_def TxnChangeSetImpl_commit_def TxnChangeSetImpl_deferTxn_def
        ChangeSetImpl_defer_def ChangeSetImpl_deferFail_def checkStatus_def
        new_TxnChangeSetImpl_def Let_def)
end
